theory Spec2Isabelle
  imports Main "HOL-Library.Word"
begin

section \<open>Data model of the translator\<close>

text \<open>
  Addresses (\<open>uintptr_t\<close>, \<open>uint64_t\<close>, \<open>size_t\<close>, VEX's \<open>Addr\<close>) are 64-bit
  unsigned words; \<open><\<close> and \<open>\<le>\<close> on words compare unsigned, \<open>+\<close> and \<open>-\<close> wrap.
\<close>

type_synonym addr = "64 word"

subsection \<open>The lifter's IR, as far as the translator inspects it\<close>

text \<open>
  An \<open>IRConst\<close> is a tag and a union; the translator only ever reads and writes the
  union through its member \<open>Ico.U64\<close>, which \<open>con_U64\<close> stands for.
\<close>

datatype IRConstTag = Ico_U64 | Ico_Other

record IRConst =
  con_tag :: IRConstTag
  con_U64 :: addr

text \<open>
  Statements: the translator looks at the tag, at \<open>Ist.IMark.addr\<close> and \<open>Ist.IMark.len\<close>
  (an unsigned 32-bit length) and at \<open>Ist.Exit.dst\<close>; every other statement kind
  is \<open>Ist_Other\<close>.
\<close>

datatype IRStmt =
    Ist_IMark addr "32 word"
  | Ist_Exit IRConst
  | Ist_Other

text \<open>The \<open>next\<close> expression: only the tag \<open>Iex_Const\<close> and its constant are inspected.\<close>

datatype IRExpr = Iex_Const IRConst | Iex_Other

datatype IRJumpKind = Ijk_Boring | Ijk_Call | Ijk_Ret | Ijk_NoDecode | Ijk_Other

text \<open>
  The super-block. \<open>stmts\<close> is the statement array and \<open>stmts_used\<close> the number of its
  entries in use; truncation lowers \<open>stmts_used\<close> and leaves the array alone. The field
  \<open>next\<close> of the source is \<open>irsb_next\<close> here.
\<close>

record IRSB =
  stmts :: "IRStmt list"
  stmts_used :: nat
  irsb_next :: IRExpr
  jumpkind :: IRJumpKind

text \<open>The statements \<open>stmts[0] .. stmts[stmts_used - 1]\<close> that every loop of the source visits.\<close>

definition used_stmts :: "IRSB \<Rightarrow> IRStmt list" where
  "used_stmts b = take (stmts_used b) (stmts b)"

fun is_IMark :: "IRStmt \<Rightarrow> bool" where
  "is_IMark (Ist_IMark a l) = True"
| "is_IMark s = False"

subsection \<open>Terminators\<close>

text \<open>
  Modelled from the spec: \<open>TerminatorType\<close> and the struct \<open>Terminator\<close> are declared in a
  header outside the translator's source file. The spec lists the eight types and the
  fields \<open>type\<close>, \<open>target\<close>, \<open>fall_through\<close> (addresses) and \<open>is_tail\<close> (a boolean);
  the source uses exactly these names.
\<close>

datatype TerminatorType =
    TerminatorCall
  | TerminatorCallUnresolved
  | TerminatorJump
  | TerminatorJcc
  | TerminatorReturn
  | TerminatorFallthrough
  | TerminatorNoReturn
  | TerminatorUnresolved

record Terminator =
  type :: TerminatorType
  target :: addr
  fall_through :: addr
  is_tail :: bool

section \<open>The terminator classifier\<close>

text \<open>
  First loop of \<open>get_terminator\<close>: scan the statements in use from the last one down and
  stop at the first InstructionMark. The result is \<open>(mark.addr, mark.len)\<close>, or \<open>None\<close>
  when \<open>last_mark\<close> stays \<open>nullptr\<close>. The argument is the reversed list of used statements.
\<close>

fun find_last_mark :: "IRStmt list \<Rightarrow> (addr \<times> 32 word) option" where
  "find_last_mark [] = None"
| "find_last_mark (Ist_IMark a l # ss) = Some (a, l)"
| "find_last_mark (s # ss) = find_last_mark ss"

text \<open>
  Second loop: \<open>for(i = stmts_used - 1; !jcc_target && i >= 0; --i)\<close>, over the reversed
  statements, carrying \<open>(jcc_target, is_conditional)\<close>. It stops when \<open>jcc_target\<close> is
  nonzero, at an InstructionMark, or when the statements are exhausted.
\<close>

fun scan_exits ::
  "addr \<Rightarrow> addr \<Rightarrow> addr \<Rightarrow> addr \<Rightarrow> IRStmt list \<Rightarrow> addr \<times> bool \<Rightarrow> addr \<times> bool" where
  "scan_exits block_start last_addr ft jmp_call_target [] (jcc_target, is_conditional) =
     (jcc_target, is_conditional)"
| "scan_exits block_start last_addr ft jmp_call_target (s # ss) (jcc_target, is_conditional) =
     (if jcc_target \<noteq> 0 then (jcc_target, is_conditional)
      else (case s of
          Ist_IMark a l \<Rightarrow> (jcc_target, is_conditional)
        | Ist_Exit dst \<Rightarrow>
            (let j1 = con_U64 dst;
                 j2 = (if j1 = jmp_call_target \<and> ft = j1 then 0 else j1)
             in if block_start < j2 \<and> j2 \<le> last_addr
                then scan_exits block_start last_addr ft jmp_call_target ss (0, False)
                else scan_exits block_start last_addr ft jmp_call_target ss (j2, True))
        | Ist_Other \<Rightarrow>
            scan_exits block_start last_addr ft jmp_call_target ss (jcc_target, is_conditional)))"

text \<open>
  The fusion step (source lines 421 to 425): the value of \<open>jcc_target\<close> after it.
\<close>

definition fuse :: "bool \<Rightarrow> bool \<Rightarrow> addr \<Rightarrow> addr \<Rightarrow> addr \<Rightarrow> addr" where
  "fuse is_conditional is_jmp_call jcc_target ft jmp_call_target =
     (if is_conditional \<and> is_jmp_call
      then (if jcc_target = ft then jmp_call_target else jcc_target)
      else jcc_target)"

text \<open>The final \<open>switch(block.jumpkind)\<close>, on the result record built so far.\<close>

definition dispatch ::
  "IRJumpKind \<Rightarrow> addr \<Rightarrow> addr \<Rightarrow> addr \<Rightarrow> Terminator \<Rightarrow> Terminator" where
  "dispatch jk jcc_target jmp_call_target last_addr result =
     (case jk of
        Ijk_NoDecode \<Rightarrow>
          result\<lparr>type := TerminatorFallthrough, fall_through := jmp_call_target\<rparr>
      | Ijk_Ret \<Rightarrow>
          result\<lparr>type := TerminatorReturn, fall_through := 0\<rparr>
      | Ijk_Call \<Rightarrow>
          (if jmp_call_target \<noteq> 0
           then result\<lparr>type := TerminatorCall, target := jmp_call_target\<rparr>
           else result\<lparr>type := TerminatorCallUnresolved, target := 0\<rparr>)
      | Ijk_Boring \<Rightarrow>
          (if jcc_target \<noteq> 0
           then result\<lparr>type := TerminatorJcc, target := jcc_target\<rparr>
           else if jmp_call_target = last_addr
           then result\<lparr>type := TerminatorFallthrough\<rparr>
           else if jmp_call_target = fall_through result
           then result\<lparr>type := TerminatorJump, target := jmp_call_target, fall_through := 0\<rparr>
           else if jmp_call_target \<noteq> 0
           then result\<lparr>type := TerminatorJump, target := jmp_call_target, fall_through := 0\<rparr>
           else result\<lparr>type := TerminatorUnresolved, target := 0, fall_through := 0\<rparr>)
      | Ijk_Other \<Rightarrow> result\<lparr>fall_through := 0\<rparr>)"

text \<open>
  The values the classifier computes before the fusion step, in the order of the source:
  \<open>last_addr\<close>, the fall-through \<open>mark.addr + mark.len\<close> (64-bit, wrapping),
  \<open>jmp_call_target\<close>, \<open>is_jmp_call\<close> and the outcome of the Exit scan.
\<close>

definition last_addr_of :: "IRSB \<Rightarrow> addr" where
  "last_addr_of block =
     (case find_last_mark (rev (used_stmts block)) of None \<Rightarrow> 0 | Some (a, l) \<Rightarrow> a)"

definition fall_through_of :: "IRSB \<Rightarrow> addr" where
  "fall_through_of block =
     (case find_last_mark (rev (used_stmts block)) of None \<Rightarrow> 0 | Some (a, l) \<Rightarrow> a + ucast l)"

definition jmp_call_target_of :: "IRSB \<Rightarrow> addr" where
  "jmp_call_target_of block =
     (case irsb_next block of Iex_Const c \<Rightarrow> con_U64 c | Iex_Other \<Rightarrow> 0)"

definition is_jmp_call_of :: "IRSB \<Rightarrow> bool" where
  "is_jmp_call_of block = (fall_through_of block \<noteq> jmp_call_target_of block)"

definition exit_scan :: "IRSB \<Rightarrow> addr \<Rightarrow> addr \<times> bool" where
  "exit_scan block block_start =
     scan_exits block_start (last_addr_of block) (fall_through_of block)
       (jmp_call_target_of block) (rev (used_stmts block)) (0, False)"

text \<open>
  \<open>Translator::get_terminator\<close>. The source declares \<open>Terminator result\<close> and assigns
  \<open>type\<close>, \<open>target\<close> and \<open>fall_through\<close> but never \<open>is_tail\<close>; the value that field
  starts with is the parameter \<open>tail0\<close>.
\<close>

definition get_terminator :: "bool \<Rightarrow> IRSB \<Rightarrow> addr \<Rightarrow> Terminator" where
  "get_terminator tail0 block block_start =
     (let result = \<lparr>type = TerminatorUnresolved, target = 0,
                    fall_through = fall_through_of block, is_tail = tail0\<rparr>;
          last_addr = last_addr_of block;
          jmp_call_target = jmp_call_target_of block;
          is_jmp_call = is_jmp_call_of block;
          (jcc_target, is_conditional) = exit_scan block block_start;
          jcc_target = fuse is_conditional is_jmp_call jcc_target
                         (fall_through result) jmp_call_target
      in dispatch (jumpkind block) jcc_target jmp_call_target last_addr result)"

section \<open>Containers\<close>

text \<open>
  A \<open>std::map\<close> keyed by address is a list of pairs in ascending key order.
  \<open>map_assign\<close> is \<open>m[k] = v\<close> (insert or overwrite), \<open>map_erase\<close> is \<open>m.erase(k)\<close>,
  lookup is \<open>map_of\<close>, iteration is the list order.
\<close>

fun map_assign :: "addr \<Rightarrow> 'v \<Rightarrow> (addr \<times> 'v) list \<Rightarrow> (addr \<times> 'v) list" where
  "map_assign k v [] = [(k, v)]"
| "map_assign k v ((k', v') # m) =
     (if k = k' then (k, v) # m
      else if k < k' then (k, v) # (k', v') # m
      else (k', v') # map_assign k v m)"

definition map_erase :: "addr \<Rightarrow> (addr \<times> 'v) list \<Rightarrow> (addr \<times> 'v) list" where
  "map_erase k m = filter (\<lambda>(k', v). k' \<noteq> k) m"

section \<open>Blocks, functions and the translator's registry\<close>

text \<open>
  Modelled from the spec: \<open>BlockDescriptor\<close> and \<open>Block\<close> are declared in headers outside
  the translator's source file. A descriptor is \<open>block_start\<close>, \<open>block_end\<close> and the
  expected \<open>instruction_count\<close>, taken here as an unsigned 64-bit count (it is compared
  with and subtracted from the 32-bit \<open>head_instructions\<close> after the usual promotion).
  A Block is its address, its owning super-block and its terminator.
\<close>

record BlockDescriptor =
  block_start :: addr
  block_end :: addr
  instruction_count :: "64 word"

record Block =
  address :: addr
  vex_block :: IRSB
  terminator :: Terminator

record Function =
  function_address :: addr
  function_blocks :: "(addr \<times> Block) list"
  xrefs :: "addr set"
  vfunc_xrefs :: "addr set"
  function_finalized :: bool

text \<open>
  Modelled from the spec: the class \<open>Function\<close> (constructor, \<open>add_block\<close>, \<open>finalize\<close>,
  \<open>get_blocks\<close>) is declared and implemented outside the translator's source file. The
  spec gives a Function as entry address, mapping from block address to Block, xref sets
  and a finalized flag; \<open>add_block\<close> attaches \<open>Block(address, IR, terminator)\<close> under its
  address, and \<open>finalize\<close> marks the Function finalized.
\<close>

definition new_Function :: "addr \<Rightarrow> Function" where
  "new_Function a =
     \<lparr>function_address = a, function_blocks = [], xrefs = {}, vfunc_xrefs = {},
      function_finalized = False\<rparr>"

definition add_block :: "Function \<Rightarrow> addr \<Rightarrow> IRSB \<Rightarrow> Terminator \<Rightarrow> Function" where
  "add_block f a ir t =
     f\<lparr>function_blocks :=
         map_assign a \<lparr>address = a, vex_block = ir, terminator = t\<rparr> (function_blocks f)\<rparr>"

definition finalize_function :: "Function \<Rightarrow> Function" where
  "finalize_function f = f\<lparr>function_finalized := True\<rparr>"

record Translator =
  "functions" :: "(addr \<times> Function) list"
  blocks :: "(addr \<times> IRSB) list"
  seen_blocks :: "addr set"
  is_finalized :: bool

text \<open>
  The collaborators the translator is constructed with: the lifter
  (\<open>_vex.translate\<close> on the bytes at an address, returning the super-block and, through
  its out-parameter, \<open>real_end\<close>), the dump file's catalog and non-returning set, and the
  value an unassigned \<open>is_tail\<close> field holds.
\<close>

record Env =
  translate :: "addr \<Rightarrow> 64 word \<Rightarrow> IRSB \<times> addr"
  get_functions :: "(addr \<times> BlockDescriptor list) list"
  get_non_returning :: "addr set"
  uninit_tail :: bool

section \<open>The block processor\<close>

text \<open>The \<open>switch\<close> of \<open>finalize_block\<close>: the non-returning overlay.\<close>

definition overlay :: "addr set \<Rightarrow> Terminator \<Rightarrow> Terminator" where
  "overlay non_returning t =
     (case type t of
        TerminatorCall \<Rightarrow>
          (if target t \<in> non_returning then t\<lparr>type := TerminatorNoReturn\<rparr> else t)
      | TerminatorJump \<Rightarrow>
          (if target t \<in> non_returning then t\<lparr>type := TerminatorNoReturn\<rparr> else t)
      | _ \<Rightarrow> t)"

definition finalize_block ::
  "Env \<Rightarrow> Function \<Rightarrow> BlockDescriptor \<Rightarrow> IRSB \<Rightarrow> Translator \<Rightarrow> Function \<times> Translator" where
  "finalize_block env f block block_pointer st =
     (let t = overlay (get_non_returning env)
                (get_terminator (uninit_tail env) block_pointer (block_start block))
      in (add_block f (block_start block) block_pointer t,
          st\<lparr>blocks := map_assign (block_start block) block_pointer (blocks st)\<rparr>))"

text \<open>
  The counting loop: \<open>head_instructions\<close> is an \<open>unsigned\<close> (32 bits) that is
  incremented at every InstructionMark among the statements in use.
\<close>

fun count_marks :: "IRStmt list \<Rightarrow> 32 word \<Rightarrow> 32 word" where
  "count_marks [] n = n"
| "count_marks (s # ss) n = count_marks ss (if is_IMark s then n + 1 else n)"

text \<open>
  The truncation loop: \<open>instr_counter\<close> is decremented at every InstructionMark; the
  first time it reaches zero the loop yields the index \<open>i\<close> and the mark's address and
  breaks. \<open>None\<close> when the loop runs to its end.
\<close>

fun truncate_scan :: "64 word \<Rightarrow> nat \<Rightarrow> IRStmt list \<Rightarrow> (nat \<times> addr) option" where
  "truncate_scan instr_counter i [] = None"
| "truncate_scan instr_counter i (Ist_IMark a l # ss) =
     (if instr_counter - 1 = 0 then Some (i, a)
      else truncate_scan (instr_counter - 1) (Suc i) ss)"
| "truncate_scan instr_counter i (s # ss) = truncate_scan instr_counter (Suc i) ss"

definition truncate_block :: "64 word \<Rightarrow> IRSB \<Rightarrow> IRSB" where
  "truncate_block count vb =
     (case truncate_scan (count + 1) 0 (used_stmts vb) of
        None \<Rightarrow> vb
      | Some (i, a) \<Rightarrow>
          vb\<lparr>jumpkind := Ijk_NoDecode,
             stmts_used := i,
             irsb_next :=
               (case irsb_next vb of
                  Iex_Const c \<Rightarrow> Iex_Const (c\<lparr>con_U64 := a\<rparr>)
                | Iex_Other \<Rightarrow> Iex_Const \<lparr>con_tag = Ico_U64, con_U64 = a\<rparr>)\<rparr>)"

text \<open>
  \<open>Translator::process_block\<close>. The \<open>Function &\<close> argument is passed in and returned; the
  deep copy of the lifter's result is the value itself. The recursion on the split
  descriptor runs on the state in which \<open>block_start\<close> has already been recorded as seen.
\<close>

function process_block ::
  "Env \<Rightarrow> Function \<Rightarrow> BlockDescriptor \<Rightarrow> Translator \<Rightarrow> bool \<times> Function \<times> Translator" where
  "process_block env f block st =
     (if block_start block = block_end block then (True, f, st)
      else if block_start block \<in> seen_blocks st then (True, f, st)
      else
        (case translate env (block_start block) (instruction_count block) of
           (translated_block, real_end) \<Rightarrow>
             (let st1 = st\<lparr>seen_blocks := insert (block_start block) (seen_blocks st)\<rparr>;
                  head_instructions = count_marks (used_stmts translated_block) 0
              in if ucast head_instructions < instruction_count block
                 then
                   (case process_block env f
                           \<lparr>block_start = real_end, block_end = block_end block,
                            instruction_count =
                              instruction_count block - ucast head_instructions\<rparr> st1 of
                      (r, f1, st2) \<Rightarrow>
                        (case finalize_block env f1 block translated_block st2 of
                           (f2, st3) \<Rightarrow> (True \<and> r, f2, st3)))
                 else
                   (case finalize_block env f block
                           (truncate_block (instruction_count block) translated_block) st1 of
                      (f2, st3) \<Rightarrow> (True, f2, st3)))))"
  by pat_completeness auto
termination
proof (relation "measure (\<lambda>(env, f, block, st). card (- seen_blocks st))")
  show "wf (measure (\<lambda>(env, f, block, st). card (- seen_blocks st)))" by simp
next
  fix env :: Env and f :: Function and block :: BlockDescriptor and st :: Translator
    and x :: "IRSB \<times> addr" and translated_block real_end st1 and head :: "32 word"
  assume fresh: "block_start block \<notin> seen_blocks st"
    and st1: "st1 = st\<lparr>seen_blocks := insert (block_start block) (seen_blocks st)\<rparr>"
  have "- seen_blocks st1 \<subset> - seen_blocks st"
    using fresh st1 by auto
  then have "card (- seen_blocks st1) < card (- seen_blocks st)"
    by (intro psubset_card_mono) simp_all
  then show "((env, f,
       \<lparr>block_start = real_end, block_end = block_end block,
        instruction_count = instruction_count block - ucast head\<rparr>, st1),
      (env, f, block, st)) \<in> measure (\<lambda>(env, f, block, st). card (- seen_blocks st))"
    by simp
qed

declare process_block.simps [simp del]

section \<open>Tail jumps and whole functions\<close>

text \<open>
  One iteration of \<open>detect_tail_jumps\<close> on a block's terminator: clear \<open>is_tail\<close>, then,
  for a Jump only, set it to whether \<open>find_if\<close> over all blocks of the function finds no
  block whose address is the target.
\<close>

definition tail_update :: "(addr \<times> Block) list \<Rightarrow> Terminator \<Rightarrow> Terminator" where
  "tail_update bs t0 =
     (let t = t0\<lparr>is_tail := False\<rparr>
      in case type t of
           TerminatorJump \<Rightarrow> t\<lparr>is_tail := (find (\<lambda>(k, b). address b = target t) bs = None)\<rparr>
         | _ \<Rightarrow> t)"

text \<open>
  The loop visits every block once and writes only \<open>is_tail\<close>; the search reads only
  block addresses, so each iteration sees the addresses the function had at the start.
\<close>

definition detect_tail_jumps :: "Function \<Rightarrow> Function" where
  "detect_tail_jumps f =
     f\<lparr>function_blocks :=
         map (\<lambda>(k, b). (k, b\<lparr>terminator := tail_update (function_blocks f) (terminator b)\<rparr>))
           (function_blocks f)\<rparr>"

text \<open>
  \<open>translate_function\<close> calls \<open>process_block(function, *i)\<close> in a loop and acts on the
  results. Its loop and body are written with that call as a parameter \<open>pb\<close>, so that
  what \<open>translate_function\<close> does with a result can be stated whatever the result is;
  \<open>process_blocks\<close> and \<open>translate_function\<close> themselves are the instances at the
  translator's own \<open>process_block\<close>.
\<close>

type_synonym block_processor =
  "Function \<Rightarrow> BlockDescriptor \<Rightarrow> Translator \<Rightarrow> bool \<times> Function \<times> Translator"

text \<open>
  The \<open>for\<close> loop of \<open>translate_function\<close> over the catalog's block descriptors: it stops
  at the first call that returns false.
\<close>

fun process_blocks_with ::
  "block_processor \<Rightarrow> Function \<Rightarrow> BlockDescriptor list \<Rightarrow> Translator
     \<Rightarrow> bool \<times> Function \<times> Translator" where
  "process_blocks_with pb f [] st = (True, f, st)"
| "process_blocks_with pb f (b # bs) st =
     (case pb f b st of
        (ok, f1, st1) \<Rightarrow> if \<not> ok then (False, f1, st1) else process_blocks_with pb f1 bs st1)"

definition process_blocks ::
  "Env \<Rightarrow> Function \<Rightarrow> BlockDescriptor list \<Rightarrow> Translator \<Rightarrow> bool \<times> Function \<times> Translator" where
  "process_blocks env = process_blocks_with (process_block env)"

text \<open>
  \<open>Translator::translate_function\<close>. \<open>function\<close> is a reference to the registry slot
  \<open>_functions[address]\<close>: the slot is created first, the Function built by the loop is
  what the slot holds when the loop ends, and the slot is erased on failure. The result
  is the returned pointer, \<open>None\<close> for \<open>nullptr\<close>.
\<close>

definition translate_function_with ::
  "block_processor \<Rightarrow> addr \<times> BlockDescriptor list \<Rightarrow> Translator
     \<Rightarrow> Function option \<times> Translator" where
  "translate_function_with pb current st =
     (let a = fst current;
          st0 = st\<lparr>functions := map_assign a (new_Function a) (functions st)\<rparr>
      in case process_blocks_with pb (new_Function a) (snd current) st0 of
           (ok, f, st1) \<Rightarrow>
             if \<not> ok then (None, st1\<lparr>functions := map_erase a (functions st1)\<rparr>)
             else (let f' = finalize_function (detect_tail_jumps f)
                   in (Some f', st1\<lparr>functions := map_assign a f' (functions st1)\<rparr>)))"

definition translate_function ::
  "Env \<Rightarrow> addr \<times> BlockDescriptor list \<Rightarrow> Translator \<Rightarrow> Function option \<times> Translator" where
  "translate_function env = translate_function_with (process_block env)"

definition maybe_translate_function ::
  "Env \<Rightarrow> addr \<Rightarrow> Translator \<Rightarrow> Function option \<times> Translator" where
  "maybe_translate_function env a st =
     (case map_of (functions st) a of
        Some f \<Rightarrow> (Some f, st)
      | None \<Rightarrow>
          (case map_of (get_functions env) a of
             None \<Rightarrow> (None, st)
           | Some bs \<Rightarrow> translate_function env (a, bs) st))"

text \<open>
  The translator's \<open>process_block\<close> has no failing path. The specification reserves
  the result false for a lift failure and names a lifter that under-translates without
  progress (\<open>real_end = block_start\<close>) as the case to report. \<open>strict_process_block\<close>
  is \<open>process_block\<close> with that report added to its result and nothing else changed; it
  serves to run the failure path of \<open>translate_function\<close>.
\<close>

definition stalls :: "Env \<Rightarrow> BlockDescriptor \<Rightarrow> Translator \<Rightarrow> bool" where
  "stalls env d s =
     (block_start d \<noteq> block_end d \<and> block_start d \<notin> seen_blocks s
      \<and> (case translate env (block_start d) (instruction_count d) of
            (ir, real_end) \<Rightarrow>
              ucast (count_marks (used_stmts ir) 0) < instruction_count d
              \<and> real_end = block_start d))"

definition strict_process_block :: "Env \<Rightarrow> block_processor" where
  "strict_process_block env f d s =
     (case process_block env f d s of (r, f', s') \<Rightarrow> (r \<and> \<not> stalls env d s, f', s'))"

section \<open>The public accessors and the mutex\<close>

text \<open>
  Each accessor returns, next to its result, the synchronisation events it performs in
  order: \<open>lock_guard<mutex> _(_mutex)\<close> locks on entry and unlocks when the function is
  left (by return or by throw), and every read or write of \<open>_functions\<close> is an access to
  the registry. A thrown \<open>runtime_error\<close> is the error value.
\<close>

datatype error = Runtime_error

datatype sync_event = Lock_mutex | Unlock_mutex | Access_registry

definition get_function ::
  "Env \<Rightarrow> addr \<Rightarrow> Translator \<Rightarrow> sync_event list \<times> (error + Function) \<times> Translator" where
  "get_function env a st =
     (case maybe_translate_function env a st of
        (None, st') \<Rightarrow> ([Lock_mutex, Access_registry, Unlock_mutex], Inl Runtime_error, st')
      | (Some f, st') \<Rightarrow> ([Lock_mutex, Access_registry, Unlock_mutex], Inr f, st'))"

definition cget_function ::
  "addr \<Rightarrow> Translator \<Rightarrow> sync_event list \<times> (error + Function)" where
  "cget_function a st =
     ([Lock_mutex, Access_registry, Unlock_mutex],
      (case map_of (functions st) a of Some f \<Rightarrow> Inr f | None \<Rightarrow> Inl Runtime_error))"

definition maybe_get_function ::
  "Env \<Rightarrow> addr \<Rightarrow> Translator \<Rightarrow> sync_event list \<times> Function option \<times> Translator" where
  "maybe_get_function env a st =
     (case maybe_translate_function env a st of
        (r, st') \<Rightarrow> ([Lock_mutex, Access_registry, Unlock_mutex], r, st'))"

definition get_functions_mutable ::
  "Translator \<Rightarrow> sync_event list \<times> (error + (addr \<times> Function) list)" where
  "get_functions_mutable st =
     (if is_finalized st then ([Lock_mutex, Unlock_mutex], Inl Runtime_error)
      else ([Lock_mutex, Access_registry, Unlock_mutex], Inr (functions st)))"

text \<open>
  \<open>get_containing_function\<close> scans the registry in key order for the first function that
  \<open>contains_address\<close>; the source has no \<open>lock_guard\<close> in this function.
  \<open>Function::contains_address\<close> is implemented outside the translator's source file and
  is a parameter here.
\<close>

definition get_containing_function ::
  "(Function \<Rightarrow> addr \<Rightarrow> bool) \<Rightarrow> addr \<Rightarrow> Translator \<Rightarrow> sync_event list \<times> (error + Function)" where
  "get_containing_function contains_address a st =
     ([Access_registry],
      (case find (\<lambda>(k, f). contains_address f a) (functions st) of
         Some (k, f) \<Rightarrow> Inr f
       | None \<Rightarrow> Inl Runtime_error))"

text \<open>
  Modelled from the spec: \<open>Function::add_xref\<close> and \<open>Function::add_vfunc_xref\<close> are
  implemented outside the translator's source file; the spec describes them as
  append-only annotations on the Function's xref sets.
\<close>

definition add_function_xref ::
  "addr \<Rightarrow> addr \<Rightarrow> Translator \<Rightarrow> sync_event list \<times> (error + Translator)" where
  "add_function_xref fct_addr xref_addr st =
     ([Lock_mutex, Access_registry, Unlock_mutex],
      (case map_of (functions st) fct_addr of
         None \<Rightarrow> Inl Runtime_error
       | Some f \<Rightarrow>
           Inr (st\<lparr>functions :=
                     map_assign fct_addr (f\<lparr>xrefs := insert xref_addr (xrefs f)\<rparr>)
                       (functions st)\<rparr>)))"

definition add_function_vfunc_xref ::
  "addr \<Rightarrow> addr \<Rightarrow> Translator \<Rightarrow> sync_event list \<times> (error + Translator)" where
  "add_function_vfunc_xref fct_addr xref_addr st =
     ([Lock_mutex, Access_registry, Unlock_mutex],
      (case map_of (functions st) fct_addr of
         None \<Rightarrow> Inl Runtime_error
       | Some f \<Rightarrow>
           Inr (st\<lparr>functions :=
                     map_assign fct_addr (f\<lparr>vfunc_xrefs := insert xref_addr (vfunc_xrefs f)\<rparr>)
                       (functions st)\<rparr>)))"

text \<open>
  A sequence of events is serialized when every access to the registry happens while
  the mutex is held.
\<close>

fun guarded :: "bool \<Rightarrow> sync_event list \<Rightarrow> bool" where
  "guarded held [] = True"
| "guarded held (Lock_mutex # es) = guarded True es"
| "guarded held (Unlock_mutex # es) = guarded False es"
| "guarded held (Access_registry # es) = (held \<and> guarded held es)"

definition serialized :: "sync_event list \<Rightarrow> bool" where
  "serialized es = guarded False es"

section \<open>Notions used to state the properties\<close>

text \<open>
  The descriptor \<open>split\<close> that \<open>process_block\<close> builds on under-translation, and the
  state after \<open>_seen_blocks.insert\<close>.
\<close>

definition split_descriptor :: "BlockDescriptor \<Rightarrow> IRSB \<Rightarrow> addr \<Rightarrow> BlockDescriptor" where
  "split_descriptor b ir real_end =
     \<lparr>block_start = real_end, block_end = block_end b,
      instruction_count = instruction_count b - ucast (count_marks (used_stmts ir) 0)\<rparr>"

definition mark_seen :: "addr \<Rightarrow> Translator \<Rightarrow> Translator" where
  "mark_seen a st = st\<lparr>seen_blocks := insert a (seen_blocks st)\<rparr>"

text \<open>
  What a call of \<open>process_block\<close> may change: it returns true, \<open>seen_blocks\<close> and the
  function's block addresses only grow, every block address it adds is one it recorded
  as seen during the call, and the registry of functions, the finalized flags and the
  function's address stay as they were.
\<close>

definition frame_ok :: "Function \<Rightarrow> Translator \<Rightarrow> bool \<times> Function \<times> Translator \<Rightarrow> bool" where
  "frame_ok f st res =
     (let r = fst res; f' = fst (snd res); st' = snd (snd res) in
        r \<and> seen_blocks st \<subseteq> seen_blocks st'
        \<and> dom (map_of (function_blocks f)) \<subseteq> dom (map_of (function_blocks f'))
        \<and> dom (map_of (function_blocks f')) \<subseteq>
            dom (map_of (function_blocks f)) \<union> (seen_blocks st' - seen_blocks st)
        \<and> functions st' = functions st \<and> is_finalized st' = is_finalized st
        \<and> function_address f' = function_address f
        \<and> function_finalized f' = function_finalized f)"

text \<open>
  Every block of the function has its address in \<open>seen_blocks\<close> and its super-block in
  the global \<open>blocks\<close> map.
\<close>

definition blocks_recorded :: "Function \<Rightarrow> Translator \<Rightarrow> bool" where
  "blocks_recorded f st =
     (\<forall>k b. map_of (function_blocks f) k = Some b \<longrightarrow>
        k \<in> seen_blocks st \<and> map_of (blocks st) k = Some (vex_block b))"

text \<open>
  The state in which \<open>translate_function\<close> starts its loop: the registry slot of the
  entry address holds a fresh \<open>Function(address)\<close>.
\<close>

definition fresh_slot :: "addr \<Rightarrow> Translator \<Rightarrow> Translator" where
  "fresh_slot a st = st\<lparr>functions := map_assign a (new_Function a) (functions st)\<rparr>"

text \<open>
  The function and state after a block processor has run over descriptors in order,
  whatever it returned.
\<close>

definition run_blocks ::
  "block_processor \<Rightarrow> Function \<times> Translator \<Rightarrow> BlockDescriptor list \<Rightarrow> Function \<times> Translator" where
  "run_blocks pb = foldl (\<lambda>(f, s) d. snd (pb f d s))"



text \<open>Every block of the function is stored under its own address.\<close>

definition keyed_by_address :: "Function \<Rightarrow> bool" where
  "keyed_by_address f = (\<forall>(k, b) \<in> set (function_blocks f). address b = k)"

section \<open>Concrete blocks and translator runs\<close>

text \<open>
  A block ending in a conditional jump: two instructions at \<open>0x400200\<close> and \<open>0x400208\<close>,
  an Exit to \<open>0x400300\<close> after the last InstructionMark, \<open>next\<close> the constant
  \<open>0x400210\<close>, jump-kind Boring.
\<close>

definition jcc_block :: IRSB where
  "jcc_block =
     \<lparr>stmts = [Ist_IMark 0x400200 8, Ist_Other, Ist_IMark 0x400208 8,
               Ist_Exit \<lparr>con_tag = Ico_U64, con_U64 = 0x400300\<rparr>, Ist_Other],
      stmts_used = 5,
      irsb_next = Iex_Const \<lparr>con_tag = Ico_U64, con_U64 = 0x400210\<rparr>,
      jumpkind = Ijk_Boring\<rparr>"

text \<open>
  A block whose last instruction has an Exit to the fall-through \<open>0x400208\<close> and whose
  \<open>next\<close> expression is not a constant (an indirect jump).
\<close>

definition indirect_exit_block :: IRSB where
  "indirect_exit_block =
     \<lparr>stmts = [Ist_IMark 0x400200 8, Ist_Exit \<lparr>con_tag = Ico_U64, con_U64 = 0x400208\<rparr>],
      stmts_used = 2,
      irsb_next = Iex_Other,
      jumpkind = Ijk_Boring\<rparr>"

text \<open>
  A block whose lifted condition is inverted: the Exit after the last InstructionMark
  leads to the fall-through \<open>0x400208\<close> and \<open>next\<close> is the constant branch target
  \<open>0x400300\<close>.
\<close>

definition inverted_jcc_block :: IRSB where
  "inverted_jcc_block =
     \<lparr>stmts = [Ist_IMark 0x400200 8, Ist_Exit \<lparr>con_tag = Ico_U64, con_U64 = 0x400208\<rparr>],
      stmts_used = 2,
      irsb_next = Iex_Const \<lparr>con_tag = Ico_U64, con_U64 = 0x400300\<rparr>,
      jumpkind = Ijk_Boring\<rparr>"

text \<open>
  A translator with nothing registered, super-blocks for the scenarios of the
  specification, and a lifter, catalog and non-returning set serving them. The lifter
  answers any other address with an empty super-block and no progress.
\<close>

definition empty_translator :: Translator where
  "empty_translator = \<lparr>functions = [], blocks = [], seen_blocks = {}, is_finalized = False\<rparr>"

definition ret_block :: IRSB where
  "ret_block =
     \<lparr>stmts = [Ist_IMark 0x400100 0x10, Ist_Other], stmts_used = 2,
      irsb_next = Iex_Other, jumpkind = Ijk_Ret\<rparr>"

definition call_block :: IRSB where
  "call_block =
     \<lparr>stmts = [Ist_IMark 0x400400 5, Ist_Other], stmts_used = 2,
      irsb_next = Iex_Const \<lparr>con_tag = Ico_U64, con_U64 = 0x400900\<rparr>, jumpkind = Ijk_Call\<rparr>"

definition jump_block :: IRSB where
  "jump_block =
     \<lparr>stmts = [Ist_IMark 0x400500 8, Ist_Other], stmts_used = 2,
      irsb_next = Iex_Const \<lparr>con_tag = Ico_U64, con_U64 = 0x400508\<rparr>, jumpkind = Ijk_Boring\<rparr>"

definition tail_jump_block :: IRSB where
  "tail_jump_block =
     \<lparr>stmts = [Ist_IMark 0x400508 5], stmts_used = 1,
      irsb_next = Iex_Const \<lparr>con_tag = Ico_U64, con_U64 = 0xDEAD\<rparr>, jumpkind = Ijk_Boring\<rparr>"

definition long_block :: IRSB where
  "long_block =
     \<lparr>stmts = [Ist_IMark 0x500000 4, Ist_Other, Ist_IMark 0x500004 4, Ist_IMark 0x500008 8,
               Ist_Other, Ist_IMark 0x500010 4, Ist_Other, Ist_IMark 0x500014 4],
      stmts_used = 8,
      irsb_next = Iex_Other, jumpkind = Ijk_Boring\<rparr>"

definition head_block :: IRSB where
  "head_block =
     \<lparr>stmts = [Ist_IMark 0x600000 0x10, Ist_IMark 0x600010 0x10], stmts_used = 2,
      irsb_next = Iex_Const \<lparr>con_tag = Ico_U64, con_U64 = 0x400100\<rparr>, jumpkind = Ijk_Call\<rparr>"

definition rest_block :: IRSB where
  "rest_block =
     \<lparr>stmts = [Ist_IMark 0x600020 0x10, Ist_IMark 0x600030 0x10], stmts_used = 2,
      irsb_next = Iex_Other, jumpkind = Ijk_Ret\<rparr>"

definition stuck_block :: IRSB where
  "stuck_block =
     \<lparr>stmts = [Ist_IMark 0x700000 8], stmts_used = 1,
      irsb_next = Iex_Other, jumpkind = Ijk_Boring\<rparr>"

definition empty_block :: IRSB where
  "empty_block = \<lparr>stmts = [], stmts_used = 0, irsb_next = Iex_Other, jumpkind = Ijk_Other\<rparr>"

definition demo_translate :: "addr \<Rightarrow> 64 word \<Rightarrow> IRSB \<times> addr" where
  "demo_translate a n =
     (if a = 0x400100 then (ret_block, 0x400110)
      else if a = 0x400200 then (jcc_block, 0x400210)
      else if a = 0x400400 then (call_block, 0x400405)
      else if a = 0x400500 then (jump_block, 0x400508)
      else if a = 0x400508 then (tail_jump_block, 0x40050D)
      else if a = 0x500000 then (long_block, 0x500018)
      else if a = 0x600000 then (head_block, 0x600020)
      else if a = 0x600020 then (rest_block, 0x600040)
      else if a = 0x700000 then (stuck_block, 0x700000)
      else (empty_block, a))"

definition demo_catalog :: "(addr \<times> BlockDescriptor list) list" where
  "demo_catalog =
     [(0x400100, [\<lparr>block_start = 0x400100, block_end = 0x400110, instruction_count = 1\<rparr>]),
      (0x400500, [\<lparr>block_start = 0x400500, block_end = 0x400508, instruction_count = 1\<rparr>,
                  \<lparr>block_start = 0x400508, block_end = 0x40050D, instruction_count = 1\<rparr>]),
      (0x600000, [\<lparr>block_start = 0x600000, block_end = 0x600040, instruction_count = 4\<rparr>])]"

definition demo_env :: Env where
  "demo_env =
     \<lparr>translate = demo_translate, get_functions = demo_catalog,
      get_non_returning = {0x400900}, uninit_tail = True\<rparr>"

text \<open>Descriptors handed to the block processor, and a state in which another function
  has already lifted the block at \<open>0x600020\<close>.\<close>

definition noreturn_descriptor :: BlockDescriptor where
  "noreturn_descriptor = \<lparr>block_start = 0x400400, block_end = 0x400405, instruction_count = 1\<rparr>"

definition long_descriptor :: BlockDescriptor where
  "long_descriptor = \<lparr>block_start = 0x500000, block_end = 0x500010, instruction_count = 3\<rparr>"

definition split_block_descriptor :: BlockDescriptor where
  "split_block_descriptor = \<lparr>block_start = 0x600000, block_end = 0x600040, instruction_count = 4\<rparr>"

definition stuck_descriptor :: BlockDescriptor where
  "stuck_descriptor = \<lparr>block_start = 0x700000, block_end = 0x700010, instruction_count = 2\<rparr>"

definition shared_translator :: Translator where
  "shared_translator = empty_translator\<lparr>seen_blocks := {0x600020}\<rparr>"

text \<open>
  The catalog entry of a function of two blocks whose second block jumps out of the
  function, and the Function its translation yields.
\<close>

definition tail_call_entry :: "addr \<times> BlockDescriptor list" where
  "tail_call_entry =
     (0x400500, [\<lparr>block_start = 0x400500, block_end = 0x400508, instruction_count = 1\<rparr>,
                 \<lparr>block_start = 0x400508, block_end = 0x40050D, instruction_count = 1\<rparr>])"

definition tail_call_function :: Function where
  "tail_call_function =
     \<lparr>function_address = 0x400500,
      function_blocks =
        [(0x400500, \<lparr>address = 0x400500, vex_block = jump_block,
                     terminator = \<lparr>type = TerminatorJump, target = 0x400508,
                                    fall_through = 0, is_tail = False\<rparr>\<rparr>),
         (0x400508, \<lparr>address = 0x400508, vex_block = tail_jump_block,
                     terminator = \<lparr>type = TerminatorJump, target = 0xDEAD,
                                    fall_through = 0, is_tail = True\<rparr>\<rparr>)],
      xrefs = {}, vfunc_xrefs = {}, function_finalized = True\<rparr>"

text \<open>The catalog entry of the function whose only block the lifter splits.\<close>

definition split_entry :: "addr \<times> BlockDescriptor list" where
  "split_entry = (0x600000, [split_block_descriptor])"

text \<open>
  A catalog entry whose first block lifts whole and whose second block stalls the
  lifter.
\<close>

definition ret_descriptor :: BlockDescriptor where
  "ret_descriptor = \<lparr>block_start = 0x400100, block_end = 0x400110, instruction_count = 1\<rparr>"

definition stalling_entry :: "addr \<times> BlockDescriptor list" where
  "stalling_entry = (0x400100, [ret_descriptor, stuck_descriptor])"

section \<open>Unfolding rules for evaluating the concrete runs\<close>

lemma process_blocks_simps [simp]:
  "process_blocks env f [] st = (True, f, st)"
  "process_blocks env f (b # bs) st =
     (case process_block env f b st of
        (ok, f1, st1) \<Rightarrow> if \<not> ok then (False, f1, st1) else process_blocks env f1 bs st1)"
  by (simp_all add: process_blocks_def split: prod.splits)

lemma translate_function_body:
  "translate_function env current st =
     (let a = fst current;
          st0 = st\<lparr>functions := map_assign a (new_Function a) (functions st)\<rparr>
      in case process_blocks env (new_Function a) (snd current) st0 of
           (ok, f, st1) \<Rightarrow>
             if \<not> ok then (None, st1\<lparr>functions := map_erase a (functions st1)\<rparr>)
             else (let f' = finalize_function (detect_tail_jumps f)
                   in (Some f', st1\<lparr>functions := map_assign a f' (functions st1)\<rparr>)))"
  by (simp add: translate_function_def translate_function_with_def process_blocks_def)

lemmas strict_defs = strict_process_block_def stalls_def stalling_entry_def ret_descriptor_def



lemmas demo_defs =
  demo_env_def demo_translate_def demo_catalog_def empty_translator_def
  ret_block_def call_block_def jump_block_def tail_jump_block_def long_block_def
  head_block_def rest_block_def stuck_block_def empty_block_def jcc_block_def

lemmas block_defs =
  finalize_block_def add_block_def overlay_def truncate_block_def new_Function_def
  finalize_function_def


lemmas descriptor_defs =
  noreturn_descriptor_def long_descriptor_def split_block_descriptor_def stuck_descriptor_def
  shared_translator_def split_descriptor_def mark_seen_def

lemmas classifier_defs =
  get_terminator_def used_stmts_def last_addr_of_def fall_through_of_def
  jmp_call_target_of_def is_jmp_call_of_def exit_scan_def fuse_def dispatch_def

section \<open>Properties of the classifier\<close>

text \<open>
  What the Exit scan establishes: a nonzero \<open>jcc_target\<close> comes with \<open>is_conditional\<close>,
  and it equals the fall-through only when the fall-through is not \<open>jmp_call_target\<close>.
\<close>

lemma scan_exits_inv:
  "(j0 \<noteq> 0 \<longrightarrow> c0 \<and> (j0 = ft \<longrightarrow> jct \<noteq> ft)) \<Longrightarrow>
   scan_exits bs la ft jct ss (j0, c0) = (j, c) \<Longrightarrow>
   j \<noteq> 0 \<Longrightarrow> c \<and> (j = ft \<longrightarrow> jct \<noteq> ft)"
proof (induction ss arbitrary: j0 c0)
  case Nil
  then show ?case by auto
next
  case (Cons s ss)
  show ?case
  proof (cases "j0 \<noteq> 0")
    case True
    with Cons.prems show ?thesis by auto
  next
    case False
    then have z: "j0 = 0" by simp
    show ?thesis
    proof (cases s)
      case (Ist_IMark a l)
      with Cons.prems z show ?thesis by simp
    next
      case (Ist_Exit dst)
      let ?j2 = "if con_U64 dst = jct \<and> ft = con_U64 dst then 0 else con_U64 dst"
      show ?thesis
      proof (cases "bs < ?j2 \<and> ?j2 \<le> la")
        case True
        with Cons.prems(2) z Ist_Exit
        have "scan_exits bs la ft jct ss (0, False) = (j, c)" by (simp add: Let_def)
        from Cons.IH[OF _ this Cons.prems(3)] show ?thesis by simp
      next
        case False
        with Cons.prems(2) z Ist_Exit
        have "scan_exits bs la ft jct ss (?j2, True) = (j, c)" by (simp add: Let_def)
        moreover have "?j2 \<noteq> 0 \<longrightarrow> True \<and> (?j2 = ft \<longrightarrow> jct \<noteq> ft)" by auto
        ultimately show ?thesis using Cons.IH[of ?j2 True] Cons.prems(3) by blast
      qed
    next
      case Ist_Other
      with Cons.prems(2) z have "scan_exits bs la ft jct ss (0, c0) = (j, c)" by simp
      from Cons.IH[OF _ this Cons.prems(3)] show ?thesis by simp
    qed
  qed
qed

lemma exit_scan_inv:
  assumes "exit_scan block start = (j, c)" and "j \<noteq> 0"
  shows "c \<and> (j = fall_through_of block \<longrightarrow> jmp_call_target_of block \<noteq> fall_through_of block)"
  using scan_exits_inv[of 0 False "fall_through_of block" "jmp_call_target_of block"
      start "last_addr_of block" "rev (used_stmts block)" j c] assms
  by (simp add: exit_scan_def)

text \<open>
  C8. Whatever the super-block and the block start, a terminator that the classifier
  types Jcc has a target different from its fall-through: the two differ unless both
  are 0, and in fact the target of a Jcc is never 0, so they always differ.
\<close>

theorem jcc_target_differs_from_fall_through:
  "type (get_terminator tail0 block start) = TerminatorJcc \<Longrightarrow>
   (target (get_terminator tail0 block start)
      \<noteq> fall_through (get_terminator tail0 block start)
    \<or> (target (get_terminator tail0 block start) = 0
       \<and> fall_through (get_terminator tail0 block start) = 0))
   \<and> target (get_terminator tail0 block start)
      \<noteq> fall_through (get_terminator tail0 block start)
   \<and> target (get_terminator tail0 block start) \<noteq> 0"
proof -
  assume a: "type (get_terminator tail0 block start) = TerminatorJcc"
  obtain j c where sc: "exit_scan block start = (j, c)"
    by (cases "exit_scan block start")
  note inv = exit_scan_inv[OF sc]
  show ?thesis using a inv
    by (cases "jumpkind block")
       (auto simp: get_terminator_def sc dispatch_def fuse_def is_jmp_call_of_def Let_def
             split: if_splits)
qed

theorem jcc_target_differs_from_fall_through_witness:
  "type (get_terminator False jcc_block 0x400200) = TerminatorJcc
   \<and> target (get_terminator False jcc_block 0x400200) = 0x400300
   \<and> fall_through (get_terminator False jcc_block 0x400200) = 0x400210
   \<and> target (get_terminator False jcc_block 0x400200)
      \<noteq> fall_through (get_terminator False jcc_block 0x400200)"
proof -
  have t: "type (get_terminator False jcc_block 0x400200) = TerminatorJcc"
    by (simp add: classifier_defs jcc_block_def Let_def)
  show ?thesis
    using jcc_target_differs_from_fall_through[OF t]
    by (simp add: classifier_defs jcc_block_def Let_def)
qed

lemma find_last_mark_skip:
  "\<forall>s\<in>set ss. \<not> is_IMark s \<Longrightarrow> find_last_mark (ss @ Ist_IMark a l # rest) = Some (a, l)"
proof (induction ss)
  case Nil
  then show ?case by simp
next
  case (Cons s ss)
  then show ?case by (cases s) simp_all
qed

lemma scan_exits_skip_other:
  "\<forall>s\<in>set ss. s = Ist_Other \<Longrightarrow>
   scan_exits bs la ft jct (ss @ rest) (0, c) = scan_exits bs la ft jct rest (0, c)"
  by (induction ss) simp_all

lemma scan_exits_stop:
  "j \<noteq> 0 \<Longrightarrow> scan_exits bs la ft jct ss (j, c) = (j, c)"
  by (cases ss) simp_all

lemma exit_scan_last_exit:
  assumes shape: "used_stmts block = pre @ Ist_IMark a l # mid @ Ist_Exit d # post"
    and mid: "\<forall>s\<in>set mid. \<not> is_IMark s"
    and post: "\<forall>s\<in>set post. s = Ist_Other"
  shows "last_addr_of block = a" "fall_through_of block = a + ucast l"
    "con_U64 d \<noteq> 0 \<Longrightarrow> \<not> (con_U64 d = jmp_call_target_of block \<and> a + ucast l = con_U64 d) \<Longrightarrow>
     \<not> (start < con_U64 d \<and> con_U64 d \<le> a) \<Longrightarrow> exit_scan block start = (con_U64 d, True)"
proof -
  have r: "rev (used_stmts block) = (rev post @ Ist_Exit d # rev mid) @ Ist_IMark a l # rev pre"
    by (simp add: shape)
  have nm: "\<forall>s\<in>set (rev post @ Ist_Exit d # rev mid). \<not> is_IMark s"
    using mid post by auto
  have flm: "find_last_mark (rev (used_stmts block)) = Some (a, l)"
    unfolding r using nm by (rule find_last_mark_skip)
  show la: "last_addr_of block = a" by (simp add: last_addr_of_def flm)
  show ft: "fall_through_of block = a + ucast l" by (simp add: fall_through_of_def flm)
  assume nz: "con_U64 d \<noteq> 0"
    and nd: "\<not> (con_U64 d = jmp_call_target_of block \<and> a + ucast l = con_U64 d)"
    and ni: "\<not> (start < con_U64 d \<and> con_U64 d \<le> a)"
  have r2: "rev (used_stmts block) = rev post @ (Ist_Exit d # rev mid @ Ist_IMark a l # rev pre)"
    by (simp add: shape)
  have po: "\<forall>s\<in>set (rev post). s = Ist_Other" using post by simp
  show "exit_scan block start = (con_U64 d, True)"
    unfolding exit_scan_def r2 la ft
    using nz nd ni
    by (auto simp: scan_exits_skip_other[OF po] scan_exits_stop Let_def)
qed

text \<open>
  C1 (as the code has it). Let \<open>jcc_target\<close> and \<open>is_conditional\<close> be what the Exit scan
  leaves. The fusion step replaces \<open>jcc_target\<close> by \<open>jmp_call_target\<close> exactly when
  \<open>is_conditional\<close> holds, the fall-through differs from \<open>jmp_call_target\<close>
  (\<open>is_jmp_call\<close>; a \<open>next\<close> without constant, \<open>jmp_call_target = 0\<close>, passes this test
  whenever the fall-through is nonzero) and \<open>jcc_target\<close> equals the fall-through. For a
  block of jump-kind Boring (the only kind whose terminator depends on \<open>jcc_target\<close>) the
  classifier's result shows it: with \<open>j\<close> standing for \<open>jmp_call_target\<close> when that
  condition holds and for \<open>jcc_target\<close> otherwise, the terminator is a Jcc with target
  \<open>j\<close> and the fall-through kept if \<open>j\<close> is nonzero, and otherwise the Fallthrough,
  Jump or Unresolved terminator that \<open>jmp_call_target\<close> alone determines. In particular,
  for a Boring block whose last instruction (of positive length, not wrapping) carries
  as its last Exit one to the fall-through, and whose \<open>next\<close> yields
  \<open>jmp_call_target = 0\<close>, the step fires and overwrites \<open>jcc_target\<close> with 0: the
  terminator is Unresolved with both addresses 0 (Fallthrough, with the fall-through
  kept, when the last instruction lies at address 0), never Jcc.
\<close>

theorem fusion_gate:
  assumes scan: "exit_scan block start = (jcc_target, is_conditional)"
    and boring: "jumpkind block = Ijk_Boring"
  shows
   "(let ft = fall_through_of block; jct = jmp_call_target_of block;
         fires = (is_conditional \<and> ft \<noteq> jct \<and> jcc_target = ft);
         j = (if fires then jct else jcc_target)
     in get_terminator tail0 block start =
          (if j \<noteq> 0
           then \<lparr>type = TerminatorJcc, target = j, fall_through = ft, is_tail = tail0\<rparr>
           else if jct = last_addr_of block
           then \<lparr>type = TerminatorFallthrough, target = 0, fall_through = ft, is_tail = tail0\<rparr>
           else if jct = ft \<or> jct \<noteq> 0
           then \<lparr>type = TerminatorJump, target = jct, fall_through = 0, is_tail = tail0\<rparr>
           else \<lparr>type = TerminatorUnresolved, target = 0, fall_through = 0, is_tail = tail0\<rparr>))
    \<and> (jmp_call_target_of block = 0
        \<and> used_stmts block = pre @ Ist_IMark a l # mid @ Ist_Exit d # post
        \<and> (\<forall>s\<in>set mid. \<not> is_IMark s) \<and> (\<forall>s\<in>set post. s = Ist_Other)
        \<and> con_U64 d = a + ucast l \<and> a < a + ucast l
      \<longrightarrow> jcc_target = a + ucast l \<and> is_conditional
          \<and> get_terminator tail0 block start =
              (if a = 0
               then \<lparr>type = TerminatorFallthrough, target = 0,
                     fall_through = a + ucast l, is_tail = tail0\<rparr>
               else \<lparr>type = TerminatorUnresolved, target = 0,
                     fall_through = 0, is_tail = tail0\<rparr>))"
proof (intro conjI impI)
  show "let ft = fall_through_of block; jct = jmp_call_target_of block;
         fires = (is_conditional \<and> ft \<noteq> jct \<and> jcc_target = ft);
         j = (if fires then jct else jcc_target)
     in get_terminator tail0 block start =
          (if j \<noteq> 0
           then \<lparr>type = TerminatorJcc, target = j, fall_through = ft, is_tail = tail0\<rparr>
           else if jct = last_addr_of block
           then \<lparr>type = TerminatorFallthrough, target = 0, fall_through = ft, is_tail = tail0\<rparr>
           else if jct = ft \<or> jct \<noteq> 0
           then \<lparr>type = TerminatorJump, target = jct, fall_through = 0, is_tail = tail0\<rparr>
           else \<lparr>type = TerminatorUnresolved, target = 0, fall_through = 0, is_tail = tail0\<rparr>)"
    by (auto simp: get_terminator_def scan boring dispatch_def fuse_def is_jmp_call_of_def Let_def)
next
  assume h: "jmp_call_target_of block = 0
        \<and> used_stmts block = pre @ Ist_IMark a l # mid @ Ist_Exit d # post
        \<and> (\<forall>s\<in>set mid. \<not> is_IMark s) \<and> (\<forall>s\<in>set post. s = Ist_Other)
        \<and> con_U64 d = a + ucast l \<and> a < a + ucast l"
  then have shape: "used_stmts block = pre @ Ist_IMark a l # mid @ Ist_Exit d # post"
    and mid: "\<forall>s\<in>set mid. \<not> is_IMark s" and post: "\<forall>s\<in>set post. s = Ist_Other"
    and jct: "jmp_call_target_of block = 0"
    and d: "con_U64 d = a + ucast l" and lt: "a < a + ucast l" by simp_all
  from lt have nz: "a + ucast l \<noteq> 0" by (metis word_not_simps(1))
  note la = exit_scan_last_exit(1)[OF shape mid post]
  note ft = exit_scan_last_exit(2)[OF shape mid post]
  have ni: "\<not> (start < con_U64 d \<and> con_U64 d \<le> a)" using lt d by auto
  have nd: "\<not> (con_U64 d = jmp_call_target_of block \<and> a + ucast l = con_U64 d)"
    using nz d jct by auto
  have sc: "exit_scan block start = (a + ucast l, True)"
    using exit_scan_last_exit(3)[OF shape mid post _ nd ni] d nz by simp
  with scan show "jcc_target = a + ucast l" and "is_conditional" by simp_all
  show "get_terminator tail0 block start =
              (if a = 0
               then \<lparr>type = TerminatorFallthrough, target = 0,
                     fall_through = a + ucast l, is_tail = tail0\<rparr>
               else \<lparr>type = TerminatorUnresolved, target = 0,
                     fall_through = 0, is_tail = tail0\<rparr>)"
    using nz by (auto simp: get_terminator_def sc is_jmp_call_of_def ft la jct boring fuse_def dispatch_def)
qed

text \<open>
  The specification's wording fails on \<open>indirect_exit_block\<close>: the \<open>next\<close> expression is no
  constant and the scan leaves the Exit's destination, equal to the fall-through, with
  \<open>is_conditional\<close> set; the terminator is not a Jcc to that destination \<open>0x400208\<close>.
\<close>

theorem fusion_counterexample:
  "jumpkind indirect_exit_block = Ijk_Boring
   \<and> irsb_next indirect_exit_block = Iex_Other
   \<and> jmp_call_target_of indirect_exit_block = 0
   \<and> used_stmts indirect_exit_block =
       [Ist_IMark 0x400200 8, Ist_Exit \<lparr>con_tag = Ico_U64, con_U64 = 0x400208\<rparr>]
   \<and> fall_through_of indirect_exit_block = 0x400208
   \<and> exit_scan indirect_exit_block 0x400200 = (0x400208, True)
   \<and> type (get_terminator False indirect_exit_block 0x400200) \<noteq> TerminatorJcc
   \<and> target (get_terminator False indirect_exit_block 0x400200) \<noteq> 0x400208"
  by (simp add: classifier_defs indirect_exit_block_def Let_def)

theorem fusion_gate_witness:
  "get_terminator False inverted_jcc_block 0x400200 =
     \<lparr>type = TerminatorJcc, target = 0x400300, fall_through = 0x400208, is_tail = False\<rparr>
   \<and> get_terminator False jcc_block 0x400200 =
     \<lparr>type = TerminatorJcc, target = 0x400300, fall_through = 0x400210, is_tail = False\<rparr>
   \<and> get_terminator False indirect_exit_block 0x400200 =
     \<lparr>type = TerminatorUnresolved, target = 0, fall_through = 0, is_tail = False\<rparr>"
proof -
  have s1: "exit_scan inverted_jcc_block 0x400200 = (0x400208, True)"
    "jumpkind inverted_jcc_block = Ijk_Boring"
    and v1: "fall_through_of inverted_jcc_block = 0x400208"
    "jmp_call_target_of inverted_jcc_block = 0x400300"
    "last_addr_of inverted_jcc_block = 0x400200"
    by (simp_all add: classifier_defs inverted_jcc_block_def Let_def)
  have s2: "exit_scan jcc_block 0x400200 = (0x400300, True)"
    "jumpkind jcc_block = Ijk_Boring"
    and v2: "fall_through_of jcc_block = 0x400210"
    "jmp_call_target_of jcc_block = 0x400210"
    "last_addr_of jcc_block = 0x400208"
    by (simp_all add: classifier_defs jcc_block_def Let_def)
  have s3: "exit_scan indirect_exit_block 0x400200 = (0x400208, True)"
    "jumpkind indirect_exit_block = Ijk_Boring"
    and v3: "fall_through_of indirect_exit_block = 0x400208"
    "jmp_call_target_of indirect_exit_block = 0"
    "last_addr_of indirect_exit_block = 0x400200"
    by (simp_all add: classifier_defs indirect_exit_block_def Let_def)
  have h3: "jmp_call_target_of indirect_exit_block = 0
        \<and> used_stmts indirect_exit_block =
            [] @ Ist_IMark 0x400200 8 # [] @ Ist_Exit \<lparr>con_tag = Ico_U64, con_U64 = 0x400208\<rparr> # []
        \<and> (\<forall>s\<in>set ([]::IRStmt list). \<not> is_IMark s) \<and> (\<forall>s\<in>set ([]::IRStmt list). s = Ist_Other)
        \<and> con_U64 \<lparr>con_tag = Ico_U64, con_U64 = 0x400208\<rparr> = (0x400200::addr) + ucast (8::32 word)
        \<and> (0x400200::addr) < 0x400200 + ucast (8::32 word)"
    by (simp add: indirect_exit_block_def used_stmts_def jmp_call_target_of_def)
  have a: "get_terminator False inverted_jcc_block 0x400200 =
     \<lparr>type = TerminatorJcc, target = 0x400300, fall_through = 0x400208, is_tail = False\<rparr>"
    using fusion_gate[where ?tail0.0 = False, OF s1, THEN conjunct1] by (simp add: v1 Let_def)
  have b: "get_terminator False jcc_block 0x400200 =
     \<lparr>type = TerminatorJcc, target = 0x400300, fall_through = 0x400210, is_tail = False\<rparr>"
    using fusion_gate[where ?tail0.0 = False, OF s2, THEN conjunct1] by (simp add: v2 Let_def)
  have "get_terminator False indirect_exit_block 0x400200 =
         (if (0x400200::addr) = 0
          then \<lparr>type = TerminatorFallthrough, target = 0,
                fall_through = 0x400200 + ucast (8::32 word), is_tail = False\<rparr>
          else \<lparr>type = TerminatorUnresolved, target = 0, fall_through = 0, is_tail = False\<rparr>)"
    using fusion_gate[where pre = "[]" and a = "0x400200" and l = 8 and mid = "[]"
      and d = "\<lparr>con_tag = Ico_U64, con_U64 = 0x400208\<rparr>" and post = "[]"
      and ?tail0.0 = False, OF s3] h3
    by blast
  then have c: "get_terminator False indirect_exit_block 0x400200 =
     \<lparr>type = TerminatorUnresolved, target = 0, fall_through = 0, is_tail = False\<rparr>" by simp
  from a b c show ?thesis by blast
qed

section \<open>Properties of the block processor\<close>

lemma map_of_map_assign: "map_of (map_assign k v m) = (map_of m)(k \<mapsto> v)"
  by (induction m) (auto simp: fun_upd_twist)

lemma map_of_map_erase: "map_of (map_erase k m) = (map_of m)(k := None)"
  by (induction m) (auto simp: map_erase_def)

lemma finalize_block_function:
  "function_blocks (fst (finalize_block env f b ir st)) =
     map_assign (block_start b)
       \<lparr>address = block_start b, vex_block = ir,
        terminator = overlay (get_non_returning env)
                       (get_terminator (uninit_tail env) ir (block_start b))\<rparr>
       (function_blocks f)"
  by (simp add: finalize_block_def add_block_def Let_def)

lemma finalize_block_frame:
  "function_address (fst (finalize_block env f b ir st)) = function_address f"
  "function_finalized (fst (finalize_block env f b ir st)) = function_finalized f"
  "seen_blocks (snd (finalize_block env f b ir st)) = seen_blocks st"
  "functions (snd (finalize_block env f b ir st)) = functions st"
  "is_finalized (snd (finalize_block env f b ir st)) = is_finalized st"
  "blocks (snd (finalize_block env f b ir st)) = map_assign (block_start b) ir (blocks st)"
  by (simp_all add: finalize_block_def add_block_def Let_def)

lemma process_block_empty:
  "block_start b = block_end b \<Longrightarrow> process_block env f b st = (True, f, st)"
  by (simp add: process_block.simps)

lemma process_block_seen:
  "block_start b \<in> seen_blocks st \<Longrightarrow> process_block env f b st = (True, f, st)"
  by (simp add: process_block.simps)

lemma process_block_split:
  assumes "block_start b \<noteq> block_end b" and "block_start b \<notin> seen_blocks st"
    and "translate env (block_start b) (instruction_count b) = (ir, real_end)"
    and "ucast (count_marks (used_stmts ir) 0) < instruction_count b"
  shows "process_block env f b st =
     (case process_block env f
             \<lparr>block_start = real_end, block_end = block_end b,
              instruction_count = instruction_count b - ucast (count_marks (used_stmts ir) 0)\<rparr>
             (st\<lparr>seen_blocks := insert (block_start b) (seen_blocks st)\<rparr>) of
        (r, f1, st2) \<Rightarrow>
          (r, fst (finalize_block env f1 b ir st2), snd (finalize_block env f1 b ir st2)))"
  using assms
  by (subst process_block.simps) (simp add: Let_def split: prod.splits)

lemma process_block_whole:
  assumes "block_start b \<noteq> block_end b" and "block_start b \<notin> seen_blocks st"
    and "translate env (block_start b) (instruction_count b) = (ir, real_end)"
    and "\<not> ucast (count_marks (used_stmts ir) 0) < instruction_count b"
  shows "process_block env f b st =
     (True,
      fst (finalize_block env f b (truncate_block (instruction_count b) ir)
             (st\<lparr>seen_blocks := insert (block_start b) (seen_blocks st)\<rparr>)),
      snd (finalize_block env f b (truncate_block (instruction_count b) ir)
             (st\<lparr>seen_blocks := insert (block_start b) (seen_blocks st)\<rparr>)))"
  using assms
  by (subst process_block.simps) (simp add: Let_def split: prod.splits)


text \<open>
  Induction over the calls of \<open>process_block\<close>, by its three outcomes: a no-op (empty or
  seen descriptor), an under-translation split, and a block finalized whole (after the
  truncation loop).
\<close>

lemma process_block_induct [case_names skip split whole]:
  assumes skip: "\<And>env f b st.
      block_start b = block_end b \<or> block_start b \<in> seen_blocks st \<Longrightarrow>
      process_block env f b st = (True, f, st) \<Longrightarrow> P env f b st"
    and split: "\<And>env f b st ir real_end r f1 st2.
      block_start b \<noteq> block_end b \<Longrightarrow> block_start b \<notin> seen_blocks st \<Longrightarrow>
      translate env (block_start b) (instruction_count b) = (ir, real_end) \<Longrightarrow>
      ucast (count_marks (used_stmts ir) 0) < instruction_count b \<Longrightarrow>
      process_block env f (split_descriptor b ir real_end) (mark_seen (block_start b) st)
        = (r, f1, st2) \<Longrightarrow>
      P env f (split_descriptor b ir real_end) (mark_seen (block_start b) st) \<Longrightarrow>
      process_block env f b st =
        (r, fst (finalize_block env f1 b ir st2), snd (finalize_block env f1 b ir st2)) \<Longrightarrow>
      P env f b st"
    and whole: "\<And>env f b st ir real_end.
      block_start b \<noteq> block_end b \<Longrightarrow> block_start b \<notin> seen_blocks st \<Longrightarrow>
      translate env (block_start b) (instruction_count b) = (ir, real_end) \<Longrightarrow>
      \<not> ucast (count_marks (used_stmts ir) 0) < instruction_count b \<Longrightarrow>
      process_block env f b st =
        (True,
         fst (finalize_block env f b (truncate_block (instruction_count b) ir)
                (mark_seen (block_start b) st)),
         snd (finalize_block env f b (truncate_block (instruction_count b) ir)
                (mark_seen (block_start b) st))) \<Longrightarrow>
      P env f b st"
  shows "P env f b st"
proof (induction env f b st rule: process_block.induct)
  case (1 env f block st)
  show ?case
  proof (cases "block_start block = block_end block \<or> block_start block \<in> seen_blocks st")
    case True
    then have "process_block env f block st = (True, f, st)"
      using process_block_empty process_block_seen by blast
    with True show ?thesis by (rule skip)
  next
    case False
    then have ne: "block_start block \<noteq> block_end block"
      and fresh: "block_start block \<notin> seen_blocks st" by simp_all
    obtain ir real_end where tr:
      "translate env (block_start block) (instruction_count block) = (ir, real_end)"
      by (cases "translate env (block_start block) (instruction_count block)")
    show ?thesis
    proof (cases "ucast (count_marks (used_stmts ir) 0) < instruction_count block")
      case True
      have ih: "P env f (split_descriptor block ir real_end) (mark_seen (block_start block) st)"
        unfolding split_descriptor_def mark_seen_def
        using "1.IH"[OF ne fresh tr[symmetric] refl refl True] .
      obtain r f1 st2 where rec:
        "process_block env f (split_descriptor block ir real_end)
           (mark_seen (block_start block) st) = (r, f1, st2)"
        using prod_cases3 by blast
      have eq: "process_block env f block st =
          (r, fst (finalize_block env f1 block ir st2), snd (finalize_block env f1 block ir st2))"
        using process_block_split[OF ne fresh tr True, of f] rec
        by (simp add: split_descriptor_def mark_seen_def)
      show ?thesis by (rule split[OF ne fresh tr True rec ih eq])
    next
      case False
      show ?thesis
        using process_block_whole[OF ne fresh tr False, of f]
        by (intro whole[OF ne fresh tr False]) (simp add: mark_seen_def)
    qed
  qed
qed

lemma frame_ok_refl: "frame_ok f st (True, f, st)"
  by (simp add: frame_ok_def)

lemma process_block_frame: "frame_ok f st (process_block env f b st)"
proof (induction env f b st rule: process_block_induct)
  case (skip env f b st)
  then show ?case by (simp add: frame_ok_refl)
next
  case (split env f b st ir real_end r f1 st2)
  from split.IH split.hyps(5) show ?case
    unfolding split.hyps(6) using split.hyps(2)
    by (auto simp: frame_ok_def mark_seen_def Let_def finalize_block_function
        finalize_block_frame map_of_map_assign)
next
  case (whole env f b st ir real_end)
  show ?case
    unfolding whole.hyps(5) using whole.hyps(2)
    by (auto simp: frame_ok_def mark_seen_def Let_def finalize_block_function
        finalize_block_frame map_of_map_assign)
qed

lemma blocks_recorded_finalize:
  "blocks_recorded f st \<Longrightarrow> block_start b \<in> seen_blocks st \<Longrightarrow>
   blocks_recorded (fst (finalize_block env f b ir st)) (snd (finalize_block env f b ir st))"
  by (auto simp: blocks_recorded_def finalize_block_function finalize_block_frame
      map_of_map_assign)

lemma blocks_recorded_mark_seen:
  "blocks_recorded f st \<Longrightarrow> blocks_recorded f (mark_seen a st)"
  by (auto simp: blocks_recorded_def mark_seen_def)

lemma process_block_recorded:
  "blocks_recorded f st \<Longrightarrow>
   blocks_recorded (fst (snd (process_block env f b st))) (snd (snd (process_block env f b st)))"
proof (induction env f b st rule: process_block_induct)
  case (skip env f b st)
  then show ?case by simp
next
  case (split env f b st ir real_end r f1 st2)
  have "blocks_recorded f1 st2"
    using split.IH[OF blocks_recorded_mark_seen[OF split.prems]] split.hyps(5) by simp
  moreover have "block_start b \<in> seen_blocks st2"
    using process_block_frame[of f "mark_seen (block_start b) st" env
        "split_descriptor b ir real_end"] split.hyps(5)
    by (auto simp: frame_ok_def mark_seen_def Let_def)
  ultimately show ?case
    unfolding split.hyps(6) by (simp add: blocks_recorded_finalize)
next
  case (whole env f b st ir real_end)
  show ?case
    unfolding whole.hyps(5)
    using blocks_recorded_finalize[OF blocks_recorded_mark_seen[OF whole.prems], of b "block_start b"]
    by (simp add: mark_seen_def)
qed

lemma process_block_attaches:
  assumes "block_start b \<noteq> block_end b" and "block_start b \<notin> seen_blocks st"
  shows "block_start b \<in> dom (map_of (function_blocks (fst (snd (process_block env f b st)))))"
    and "block_start b \<in> seen_blocks (snd (snd (process_block env f b st)))"
proof -
  obtain ir real_end where tr:
    "translate env (block_start b) (instruction_count b) = (ir, real_end)"
    by (cases "translate env (block_start b) (instruction_count b)")
  have "block_start b \<in> dom (map_of (function_blocks (fst (snd (process_block env f b st)))))
      \<and> block_start b \<in> seen_blocks (snd (snd (process_block env f b st)))"
  proof (cases "ucast (count_marks (used_stmts ir) 0) < instruction_count b")
    case True
    let ?rec = "process_block env f
             \<lparr>block_start = real_end, block_end = block_end b,
              instruction_count = instruction_count b - ucast (count_marks (used_stmts ir) 0)\<rparr>
             (st\<lparr>seen_blocks := insert (block_start b) (seen_blocks st)\<rparr>)"
    have "frame_ok f (st\<lparr>seen_blocks := insert (block_start b) (seen_blocks st)\<rparr>) ?rec"
      by (rule process_block_frame)
    then have "block_start b \<in> seen_blocks (snd (snd ?rec))"
      by (auto simp: frame_ok_def Let_def)
    then show ?thesis
      unfolding process_block_split[OF assms tr True]
      by (simp add: split_beta finalize_block_function finalize_block_frame map_of_map_assign)
  next
    case False
    show ?thesis
      unfolding process_block_whole[OF assms tr False]
      by (simp add: finalize_block_function finalize_block_frame map_of_map_assign)
  qed
  then show "block_start b \<in> dom (map_of (function_blocks (fst (snd (process_block env f b st)))))"
    and "block_start b \<in> seen_blocks (snd (snd (process_block env f b st)))" by simp_all
qed


section \<open>Properties of the counting and truncation loops\<close>

lemma unat_ucast_32_64: "unat (ucast (w :: 32 word) :: 64 word) = unat w"
proof -
  have "uint (ucast w :: 64 word) = uint w"
    by (rule uint_up_ucast) (simp add: is_up)
  then show ?thesis by (simp only: unat_eq_nat_uint)
qed

lemma count_marks_of_nat:
  "count_marks ss n = n + of_nat (length (filter is_IMark ss))"
  by (induction ss arbitrary: n) simp_all

lemma head_instructions_unat:
  assumes "length (filter is_IMark ss) < 2 ^ 32"
  shows "unat (ucast (count_marks ss 0) :: 64 word) = length (filter is_IMark ss)"
  using assms by (simp add: count_marks_of_nat unat_ucast_32_64 unat_of_nat)

lemma unat_pred:
  fixes c :: "64 word"
  assumes "2 \<le> unat c"
  shows "c - 1 \<noteq> 0" and "unat (c - 1) = unat c - 1"
proof -
  from assms have nz: "c \<noteq> 0" by auto
  show u: "unat (c - 1) = unat c - 1" using nz by (rule unat_minus_one)
  from u assms have "unat (c - 1) \<noteq> 0" by simp
  then show "c - 1 \<noteq> 0" by auto
qed

lemma unat_one_iff:
  fixes c :: "64 word"
  shows "c - 1 = 0 \<longleftrightarrow> unat c = 1"
proof -
  have "c - 1 = 0 \<longleftrightarrow> c = 1" by simp
  also have "c = 1 \<longleftrightarrow> unat c = unat (1 :: 64 word)" by (rule word_unat_eq_iff)
  finally show ?thesis by simp
qed

lemma truncate_scan_None:
  "c \<noteq> 0 \<Longrightarrow> length (filter is_IMark ss) < unat c \<Longrightarrow> truncate_scan c i ss = None"
proof (induction ss arbitrary: c i)
  case Nil
  then show ?case by simp
next
  case (Cons s ss)
  show ?case
  proof (cases s)
    case (Ist_IMark a l)
    from Cons.prems Ist_IMark have u: "2 \<le> unat c" by simp
    note p = unat_pred[OF u]
    from Cons.prems Ist_IMark p have "length (filter is_IMark ss) < unat (c - 1)" by simp
    from Cons.IH[OF p(1) this] p(1) Ist_IMark show ?thesis by simp
  next
    case (Ist_Exit d)
    with Cons show ?thesis by simp
  next
    case Ist_Other
    with Cons show ?thesis by simp
  qed
qed

lemma truncate_scan_Some:
  "c \<noteq> 0 \<Longrightarrow> unat c \<le> length (filter is_IMark ss) \<Longrightarrow>
   \<exists>j a l. truncate_scan c i ss = Some (i + j, a) \<and> j < length ss \<and> ss ! j = Ist_IMark a l
     \<and> length (filter is_IMark (take j ss)) = unat c - 1"
proof (induction ss arbitrary: c i)
  case Nil
  then have "unat c = 0" by simp
  with Nil.prems(1) show ?case by (simp add: unat_eq_0)
next
  case (Cons s ss)
  show ?case
  proof (cases s)
    case (Ist_IMark a l)
    show ?thesis
    proof (cases "unat c = 1")
      case True
      then have "c - 1 = 0" by (simp only: unat_one_iff)
      with Ist_IMark True show ?thesis
        by (intro exI[of _ 0] exI[of _ a] exI[of _ l]) (simp del: right_minus_eq)
    next
      case False
      with Cons.prems(1) have u: "2 \<le> unat c"
        by (metis One_nat_def Suc_1 Suc_leI le_neq_implies_less unat_gt_0 not_less_eq_eq)
      note p = unat_pred[OF u]
      from Cons.prems Ist_IMark p have "unat (c - 1) \<le> length (filter is_IMark ss)" by simp
      from Cons.IH[OF p(1) this, of "Suc i"] obtain j a' l' where
        j: "truncate_scan (c - 1) (Suc i) ss = Some (Suc i + j, a')" "j < length ss"
          "ss ! j = Ist_IMark a' l'" "length (filter is_IMark (take j ss)) = unat (c - 1) - 1"
        by blast
      show ?thesis
        using j p u Ist_IMark
        by (intro exI[of _ "Suc j"] exI[of _ a'] exI[of _ l']) simp
    qed
  next
    case (Ist_Exit d)
    from Cons.prems Ist_Exit have "unat c \<le> length (filter is_IMark ss)" by simp
    from Cons.IH[OF Cons.prems(1) this, of "Suc i"] obtain j a' l' where
      j: "truncate_scan c (Suc i) ss = Some (Suc i + j, a')" "j < length ss"
        "ss ! j = Ist_IMark a' l'" "length (filter is_IMark (take j ss)) = unat c - 1"
      by blast
    show ?thesis
      using j Ist_Exit
      by (intro exI[of _ "Suc j"] exI[of _ a'] exI[of _ l']) simp
  next
    case Ist_Other
    from Cons.prems Ist_Other have "unat c \<le> length (filter is_IMark ss)" by simp
    from Cons.IH[OF Cons.prems(1) this, of "Suc i"] obtain j a' l' where
      j: "truncate_scan c (Suc i) ss = Some (Suc i + j, a')" "j < length ss"
        "ss ! j = Ist_IMark a' l'" "length (filter is_IMark (take j ss)) = unat c - 1"
      by blast
    show ?thesis
      using j Ist_Other
      by (intro exI[of _ "Suc j"] exI[of _ a'] exI[of _ l']) simp
  qed
qed

lemma unat_succ_small:
  fixes c :: "64 word"
  assumes "unat c \<le> n" "n < 2 ^ 32"
  shows "c + 1 \<noteq> 0" and "unat (c + 1) = unat c + 1"
proof -
  have "unat c + unat (1 :: 64 word) < 2 ^ LENGTH(64)"
    using assms by simp
  then have "unat (c + 1) = unat c + unat (1 :: 64 word)"
    by (simp only: unat_add_lem[THEN iffD1])
  then show u: "unat (c + 1) = unat c + 1" by simp
  then show "c + 1 \<noteq> 0" by (metis Suc_eq_plus1 nat.distinct(1) unat_0)
qed


section \<open>The non-returning overlay\<close>

lemma get_terminator_not_NoReturn:
  "type (get_terminator tail0 ir start) \<noteq> TerminatorNoReturn"
  by (cases "jumpkind ir")
     (auto simp: get_terminator_def dispatch_def Let_def split: prod.splits)

text \<open>
  C6. \<open>finalize_block\<close> attaches to the function, under \<open>block_start\<close>, the block
  with the classifier's terminator \<open>t\<close>, promoted to NoReturn exactly when \<open>t\<close> is a
  Call or a Jump whose target is in the non-returning set; in every other case the
  terminator is attached unchanged, and the target is never touched. Hence a NoReturn
  terminator's target was in the non-returning set when it was classified.
\<close>

theorem finalize_block_promotes_no_return:
  assumes t: "t = get_terminator (uninit_tail env) ir (block_start block)"
    and fb: "finalize_block env f block ir st = (f', st')"
  shows "\<exists>t'. map_of (function_blocks f') (block_start block) =
             Some \<lparr>address = block_start block, vex_block = ir, terminator = t'\<rparr>
     \<and> (type t' = TerminatorNoReturn \<longleftrightarrow>
          (type t = TerminatorCall \<or> type t = TerminatorJump) \<and> target t \<in> get_non_returning env)
     \<and> (if (type t = TerminatorCall \<or> type t = TerminatorJump) \<and> target t \<in> get_non_returning env
         then t' = t\<lparr>type := TerminatorNoReturn\<rparr> else t' = t)
     \<and> target t' = target t"
proof -
  let ?t' = "overlay (get_non_returning env) t"
  have nn: "type t \<noteq> TerminatorNoReturn" using t get_terminator_not_NoReturn by simp
  have f': "function_blocks f' =
      map_assign (block_start block)
        \<lparr>address = block_start block, vex_block = ir, terminator = ?t'\<rparr> (function_blocks f)"
    using finalize_block_function[of env f block ir st] fb t by simp
  have 1: "map_of (function_blocks f') (block_start block) =
             Some \<lparr>address = block_start block, vex_block = ir, terminator = ?t'\<rparr>"
    by (simp add: f' map_of_map_assign)
  have 2: "type ?t' = TerminatorNoReturn \<longleftrightarrow>
          (type t = TerminatorCall \<or> type t = TerminatorJump) \<and> target t \<in> get_non_returning env"
    using nn by (cases "type t") (simp_all add: overlay_def)
  have 3: "if (type t = TerminatorCall \<or> type t = TerminatorJump) \<and> target t \<in> get_non_returning env
         then ?t' = t\<lparr>type := TerminatorNoReturn\<rparr> else ?t' = t"
    by (cases "type t") (simp_all add: overlay_def)
  have 4: "target ?t' = target t"
    by (cases "type t") (simp_all add: overlay_def)
  from 1 2 3 4 show ?thesis by blast
qed

theorem finalize_block_promotes_no_return_witness:
  "\<exists>t'. map_of (function_blocks
              (fst (finalize_block demo_env (new_Function 0x400400) noreturn_descriptor
                      call_block empty_translator))) 0x400400 =
           Some \<lparr>address = 0x400400, vex_block = call_block, terminator = t'\<rparr>
      \<and> type t' = TerminatorNoReturn \<and> target t' = 0x400900"
proof -
  have t: "get_terminator True call_block 0x400400 =
      \<lparr>type = TerminatorCall, target = 0x400900, fall_through = 0x400405, is_tail = True\<rparr>"
    by (simp add: classifier_defs call_block_def Let_def)
  have e: "uninit_tail demo_env = True" "block_start noreturn_descriptor = 0x400400"
    "get_non_returning demo_env = {0x400900}"
    by (simp_all add: demo_env_def noreturn_descriptor_def)
  show ?thesis
    using finalize_block_promotes_no_return[where env = demo_env and ir = call_block
        and block = noreturn_descriptor and f = "new_Function 0x400400"
        and st = empty_translator, OF refl surjective_pairing]
    unfolding e t by auto
qed

section \<open>A lifter that makes no progress\<close>

text \<open>
  C2 (as the code has it). On a non-empty, unseen descriptor for which the lifter
  under-translates and reports \<open>real_end = block_start\<close>, \<open>process_block\<close> terminates
  (it is a total function: every recursive call records a new address as seen) and
  returns true: the recursive call on the split descriptor finds \<open>block_start\<close> already
  seen and does nothing, and the head block is finalized with its IR as lifted.
\<close>

theorem no_progress_split_succeeds:
  assumes ne: "block_start b \<noteq> block_end b" and fresh: "block_start b \<notin> seen_blocks st"
    and tr: "translate env (block_start b) (instruction_count b) = (ir, block_start b)"
    and under: "ucast (count_marks (used_stmts ir) 0) < instruction_count b"
  shows "process_block env f b st =
     (True, fst (finalize_block env f b ir (mark_seen (block_start b) st)),
            snd (finalize_block env f b ir (mark_seen (block_start b) st)))"
proof -
  have "process_block env f
          \<lparr>block_start = block_start b, block_end = block_end b,
           instruction_count = instruction_count b - ucast (count_marks (used_stmts ir) 0)\<rparr>
          (st\<lparr>seen_blocks := insert (block_start b) (seen_blocks st)\<rparr>)
        = (True, f, st\<lparr>seen_blocks := insert (block_start b) (seen_blocks st)\<rparr>)"
    by (rule process_block_seen) simp
  then show ?thesis
    unfolding process_block_split[OF ne fresh tr under] by (simp add: mark_seen_def)
qed

text \<open>
  The specification's wording expects false where the lifter makes no progress; on
  \<open>stuck_descriptor\<close> the code returns true.
\<close>

theorem no_progress_counterexample:
  "block_start stuck_descriptor \<noteq> block_end stuck_descriptor
   \<and> block_start stuck_descriptor \<notin> seen_blocks empty_translator
   \<and> translate demo_env (block_start stuck_descriptor) (instruction_count stuck_descriptor)
       = (stuck_block, block_start stuck_descriptor)
   \<and> ucast (count_marks (used_stmts stuck_block) 0) < instruction_count stuck_descriptor
   \<and> fst (process_block demo_env (new_Function 0x700000) stuck_descriptor empty_translator) = True"
  by (simp add: process_block.simps demo_defs descriptor_defs used_stmts_def)

theorem no_progress_split_succeeds_witness:
  "process_block demo_env (new_Function 0x700000) stuck_descriptor empty_translator =
     (True,
      fst (finalize_block demo_env (new_Function 0x700000) stuck_descriptor stuck_block
             (mark_seen 0x700000 empty_translator)),
      snd (finalize_block demo_env (new_Function 0x700000) stuck_descriptor stuck_block
             (mark_seen 0x700000 empty_translator)))"
proof -
  have h: "block_start stuck_descriptor \<noteq> block_end stuck_descriptor"
    "block_start stuck_descriptor \<notin> seen_blocks empty_translator"
    "translate demo_env (block_start stuck_descriptor) (instruction_count stuck_descriptor)
       = (stuck_block, block_start stuck_descriptor)"
    "ucast (count_marks (used_stmts stuck_block) 0) < instruction_count stuck_descriptor"
    by (simp_all add: demo_defs descriptor_defs used_stmts_def)
  have s: "block_start stuck_descriptor = 0x700000" by (simp add: stuck_descriptor_def)
  show ?thesis
    using no_progress_split_succeeds[OF h, of "new_Function 0x700000"] unfolding s .
qed


section \<open>Over-translation\<close>

lemma truncate_block_over:
  assumes small: "length (filter is_IMark (used_stmts ir)) < 2 ^ 32"
    and over: "unat n < length (filter is_IMark (used_stmts ir))"
  shows "\<exists>i a l. i < length (used_stmts ir) \<and> used_stmts ir ! i = Ist_IMark a l
      \<and> length (filter is_IMark (take i (used_stmts ir))) = unat n
      \<and> truncate_block n ir =
          ir\<lparr>jumpkind := Ijk_NoDecode, stmts_used := i,
             irsb_next := (case irsb_next ir of
                             Iex_Const c \<Rightarrow> Iex_Const (c\<lparr>con_U64 := a\<rparr>)
                           | Iex_Other \<Rightarrow> Iex_Const \<lparr>con_tag = Ico_U64, con_U64 = a\<rparr>)\<rparr>"
proof -
  have le: "unat n \<le> length (filter is_IMark (used_stmts ir))" using over by simp
  note s = unat_succ_small[OF le small]
  have "unat (n + 1) \<le> length (filter is_IMark (used_stmts ir))" using s(2) over by simp
  from truncate_scan_Some[OF s(1) this, of 0] obtain j a l where
    j: "truncate_scan (n + 1) 0 (used_stmts ir) = Some (j, a)" "j < length (used_stmts ir)"
      "used_stmts ir ! j = Ist_IMark a l"
      "length (filter is_IMark (take j (used_stmts ir))) = unat (n + 1) - 1"
    by auto
  show ?thesis
    using j s(2)
    by (intro exI[of _ j] exI[of _ a] exI[of _ l]) (simp add: truncate_block_def)
qed

lemma truncate_block_exact:
  assumes small: "length (filter is_IMark (used_stmts ir)) < 2 ^ 32"
    and exact: "length (filter is_IMark (used_stmts ir)) = unat n"
  shows "truncate_block n ir = ir"
proof -
  have le: "unat n \<le> length (filter is_IMark (used_stmts ir))" using exact by simp
  note s = unat_succ_small[OF le small]
  have "length (filter is_IMark (used_stmts ir)) < unat (n + 1)" using s(2) exact by simp
  from truncate_scan_None[OF s(1) this] show ?thesis by (simp add: truncate_block_def)
qed

text \<open>
  C4. Take a call of \<open>process_block\<close> on a non-empty, unseen descriptor for which the
  counted \<open>head_instructions\<close> is not below \<open>instruction_count\<close> (the count of marks
  fitting the 32-bit counter). The super-block then stored for \<open>block_start\<close>, in the
  global \<open>blocks\<close> map and in the function's block, is as follows. If the lifted IR has
  at least \<open>instruction_count + 1\<close> InstructionMarks, let \<open>i\<close> be the index of the
  \<open>(instruction_count + 1)\<close>-th one (an InstructionMark preceded by exactly
  \<open>instruction_count\<close> others) and \<open>a\<close> its address: the jump-kind is NoDecode,
  \<open>stmts_used\<close> is \<open>i\<close>, the statement array is untouched, and \<open>next\<close> is a Constant
  with 64-bit value \<open>a\<close>, namely the old constant with its value overwritten if \<open>next\<close>
  was a Constant, and a fresh \<open>Ico_U64\<close> constant otherwise. If the IR has exactly
  \<open>instruction_count\<close> InstructionMarks, it is stored unmodified.
\<close>

theorem over_translation_truncates:
  assumes ne: "block_start b \<noteq> block_end b" and fresh: "block_start b \<notin> seen_blocks st"
    and tr: "translate env (block_start b) (instruction_count b) = (ir, real_end)"
    and small: "length (filter is_IMark (used_stmts ir)) < 2 ^ 32"
    and over: "\<not> ucast (count_marks (used_stmts ir) 0) < instruction_count b"
    and res: "process_block env f b st = (r, f', st')"
  shows "\<exists>vb t. map_of (blocks st') (block_start b) = Some vb
     \<and> map_of (function_blocks f') (block_start b) =
         Some \<lparr>address = block_start b, vex_block = vb, terminator = t\<rparr>
     \<and> unat (instruction_count b) \<le> length (filter is_IMark (used_stmts ir))
     \<and> (unat (instruction_count b) < length (filter is_IMark (used_stmts ir)) \<longrightarrow>
          (\<exists>i a l. i < length (used_stmts ir) \<and> used_stmts ir ! i = Ist_IMark a l
             \<and> length (filter is_IMark (take i (used_stmts ir))) = unat (instruction_count b)
             \<and> jumpkind vb = Ijk_NoDecode \<and> stmts_used vb = i \<and> stmts vb = stmts ir
             \<and> irsb_next vb =
                 (case irsb_next ir of
                    Iex_Const c \<Rightarrow> Iex_Const (c\<lparr>con_U64 := a\<rparr>)
                  | Iex_Other \<Rightarrow> Iex_Const \<lparr>con_tag = Ico_U64, con_U64 = a\<rparr>)))
     \<and> (length (filter is_IMark (used_stmts ir)) = unat (instruction_count b) \<longrightarrow> vb = ir)"
proof -
  let ?vb = "truncate_block (instruction_count b) ir"
  let ?n = "length (filter is_IMark (used_stmts ir))"
  have eq: "f' = fst (finalize_block env f b ?vb (mark_seen (block_start b) st))"
    "st' = snd (finalize_block env f b ?vb (mark_seen (block_start b) st))"
    using process_block_whole[OF ne fresh tr over, of f] res
    by (simp_all add: mark_seen_def prod_eq_iff)
  have 1: "map_of (blocks st') (block_start b) = Some ?vb"
    by (simp add: eq finalize_block_frame map_of_map_assign)
  have 2: "map_of (function_blocks f') (block_start b) =
      Some \<lparr>address = block_start b, vex_block = ?vb,
            terminator = overlay (get_non_returning env)
                           (get_terminator (uninit_tail env) ?vb (block_start b))\<rparr>"
    by (simp add: eq finalize_block_function map_of_map_assign)
  have 3: "unat (instruction_count b) \<le> ?n"
    using over head_instructions_unat[OF small] by (simp add: word_less_nat_alt)
  have 4: "unat (instruction_count b) < ?n \<longrightarrow>
          (\<exists>i a l. i < length (used_stmts ir) \<and> used_stmts ir ! i = Ist_IMark a l
             \<and> length (filter is_IMark (take i (used_stmts ir))) = unat (instruction_count b)
             \<and> jumpkind ?vb = Ijk_NoDecode \<and> stmts_used ?vb = i \<and> stmts ?vb = stmts ir
             \<and> irsb_next ?vb =
                 (case irsb_next ir of
                    Iex_Const c \<Rightarrow> Iex_Const (c\<lparr>con_U64 := a\<rparr>)
                  | Iex_Other \<Rightarrow> Iex_Const \<lparr>con_tag = Ico_U64, con_U64 = a\<rparr>))"
  proof
    assume "unat (instruction_count b) < ?n"
    from truncate_block_over[OF small this] obtain i a l where
      i: "i < length (used_stmts ir)" "used_stmts ir ! i = Ist_IMark a l"
        "length (filter is_IMark (take i (used_stmts ir))) = unat (instruction_count b)"
        "?vb = ir\<lparr>jumpkind := Ijk_NoDecode, stmts_used := i,
             irsb_next := (case irsb_next ir of
                             Iex_Const c \<Rightarrow> Iex_Const (c\<lparr>con_U64 := a\<rparr>)
                           | Iex_Other \<Rightarrow> Iex_Const \<lparr>con_tag = Ico_U64, con_U64 = a\<rparr>)\<rparr>"
      by blast
    show "\<exists>i a l. i < length (used_stmts ir) \<and> used_stmts ir ! i = Ist_IMark a l
             \<and> length (filter is_IMark (take i (used_stmts ir))) = unat (instruction_count b)
             \<and> jumpkind ?vb = Ijk_NoDecode \<and> stmts_used ?vb = i \<and> stmts ?vb = stmts ir
             \<and> irsb_next ?vb =
                 (case irsb_next ir of
                    Iex_Const c \<Rightarrow> Iex_Const (c\<lparr>con_U64 := a\<rparr>)
                  | Iex_Other \<Rightarrow> Iex_Const \<lparr>con_tag = Ico_U64, con_U64 = a\<rparr>)"
      using i(1,2,3) unfolding i(4)
      by (intro exI[of _ i] exI[of _ a] exI[of _ l]) simp
  qed
  have 5: "?n = unat (instruction_count b) \<longrightarrow> ?vb = ir"
    using truncate_block_exact[OF small] by simp
  from 1 2 3 4 5 show ?thesis by blast
qed

theorem over_translation_truncates_witness:
  "(\<exists>vb t. map_of (blocks (snd (snd (process_block demo_env (new_Function 0x500000)
                                        long_descriptor empty_translator)))) 0x500000 = Some vb
      \<and> map_of (function_blocks (fst (snd (process_block demo_env (new_Function 0x500000)
                                        long_descriptor empty_translator)))) 0x500000 =
          Some \<lparr>address = 0x500000, vex_block = vb, terminator = t\<rparr>
      \<and> (\<exists>i a l. i < 8 \<and> used_stmts long_block ! i = Ist_IMark a l
             \<and> length (filter is_IMark (take i (used_stmts long_block))) = 3
             \<and> jumpkind vb = Ijk_NoDecode \<and> stmts_used vb = i \<and> stmts vb = stmts long_block
             \<and> irsb_next vb = Iex_Const \<lparr>con_tag = Ico_U64, con_U64 = a\<rparr>))
   \<and> map_of (blocks (snd (snd (process_block demo_env (new_Function 0x500000)
                                   long_descriptor empty_translator)))) 0x500000 =
       Some (long_block\<lparr>jumpkind := Ijk_NoDecode, stmts_used := 5,
               irsb_next := Iex_Const \<lparr>con_tag = Ico_U64, con_U64 = 0x500010\<rparr>\<rparr>)"
proof -
  have u: "used_stmts long_block = stmts long_block" "length (stmts long_block) = 8"
    "length (filter is_IMark (stmts long_block)) = 5" "irsb_next long_block = Iex_Other"
    by (simp_all add: used_stmts_def long_block_def)
  have d: "block_start long_descriptor = 0x500000" "instruction_count long_descriptor = 3"
    by (simp_all add: long_descriptor_def)
  have h: "block_start long_descriptor \<noteq> block_end long_descriptor"
    "block_start long_descriptor \<notin> seen_blocks empty_translator"
    "translate demo_env (block_start long_descriptor) (instruction_count long_descriptor)
       = (long_block, 0x500018)"
    "length (filter is_IMark (used_stmts long_block)) < 2 ^ 32"
    "\<not> ucast (count_marks (used_stmts long_block) 0) < instruction_count long_descriptor"
    by (simp_all add: demo_env_def demo_translate_def empty_translator_def long_descriptor_def
        used_stmts_def long_block_def)
  let ?p = "process_block demo_env (new_Function 0x500000) long_descriptor empty_translator"
  have res: "?p = (fst ?p, fst (snd ?p), snd (snd ?p))" by simp
  have a: "\<exists>vb t. map_of (blocks (snd (snd (process_block demo_env (new_Function 0x500000)
                                        long_descriptor empty_translator)))) 0x500000 = Some vb
      \<and> map_of (function_blocks (fst (snd (process_block demo_env (new_Function 0x500000)
                                        long_descriptor empty_translator)))) 0x500000 =
          Some \<lparr>address = 0x500000, vex_block = vb, terminator = t\<rparr>
      \<and> (\<exists>i a l. i < 8 \<and> used_stmts long_block ! i = Ist_IMark a l
             \<and> length (filter is_IMark (take i (used_stmts long_block))) = 3
             \<and> jumpkind vb = Ijk_NoDecode \<and> stmts_used vb = i \<and> stmts vb = stmts long_block
             \<and> irsb_next vb = Iex_Const \<lparr>con_tag = Ico_U64, con_U64 = a\<rparr>)"
    using over_translation_truncates[OF h res] by (simp add: d u)
  have b: "map_of (blocks (snd (snd (process_block demo_env (new_Function 0x500000)
                                   long_descriptor empty_translator)))) 0x500000 =
       Some (long_block\<lparr>jumpkind := Ijk_NoDecode, stmts_used := 5,
               irsb_next := Iex_Const \<lparr>con_tag = Ico_U64, con_U64 = 0x500010\<rparr>\<rparr>)"
    by (simp add: process_block.simps demo_defs block_defs descriptor_defs used_stmts_def Let_def)
  from a b show ?thesis by blast
qed


section \<open>Under-translation\<close>

text \<open>
  C5 (as the code has it). When the lifter returns fewer InstructionMarks than
  \<open>instruction_count\<close>, the descriptor \<open>(real_end, block_end, instruction_count -
  head_instructions)\<close> is processed first, on the state in which \<open>block_start\<close> is
  already seen; the head block is finalized afterwards, on the function and state the
  recursion returned, with its IR as lifted; the result is the conjunction of true and
  the recursion's result. The function then holds the head block at \<open>block_start\<close>.
  It also holds a block at \<open>real_end\<close> provided the split descriptor is non-empty and
  \<open>real_end\<close> was not seen before (and is not \<open>block_start\<close> itself); otherwise the
  recursive call is a no-op and the head block is the only block added.
\<close>

theorem under_translation_split:
  assumes ne: "block_start b \<noteq> block_end b" and fresh: "block_start b \<notin> seen_blocks st"
    and tr: "translate env (block_start b) (instruction_count b) = (ir, real_end)"
    and under: "ucast (count_marks (used_stmts ir) 0) < instruction_count b"
    and rec: "process_block env f (split_descriptor b ir real_end) (mark_seen (block_start b) st)
                = (r, f1, st2)"
    and res: "process_block env f b st = (r', f', st')"
  shows "r' = (True \<and> r) \<and> (f', st') = finalize_block env f1 b ir st2
     \<and> map_of (function_blocks f') (block_start b) =
         Some \<lparr>address = block_start b, vex_block = ir,
               terminator = overlay (get_non_returning env)
                              (get_terminator (uninit_tail env) ir (block_start b))\<rparr>
     \<and> map_of (blocks st') (block_start b) = Some ir
     \<and> (real_end \<noteq> block_end b \<and> real_end \<notin> seen_blocks st \<and> real_end \<noteq> block_start b
          \<longrightarrow> real_end \<in> dom (map_of (function_blocks f')))
     \<and> (real_end = block_end b \<or> real_end \<in> seen_blocks st \<or> real_end = block_start b
          \<longrightarrow> f1 = f \<and> r
              \<and> dom (map_of (function_blocks f')) =
                  insert (block_start b) (dom (map_of (function_blocks f))))"
proof -
  let ?split = "split_descriptor b ir real_end"
  let ?st1 = "mark_seen (block_start b) st"
  have eq: "(r', f', st') =
      (r, fst (finalize_block env f1 b ir st2), snd (finalize_block env f1 b ir st2))"
    using process_block_split[OF ne fresh tr under, of f] rec res
    by (simp add: split_descriptor_def mark_seen_def)
  then have 1: "r' = (True \<and> r)" and f': "f' = fst (finalize_block env f1 b ir st2)"
    and st': "st' = snd (finalize_block env f1 b ir st2)" by (simp_all add: prod_eq_iff)
  have 2: "(f', st') = finalize_block env f1 b ir st2" by (simp add: f' st')
  have 3: "map_of (function_blocks f') (block_start b) =
         Some \<lparr>address = block_start b, vex_block = ir,
               terminator = overlay (get_non_returning env)
                              (get_terminator (uninit_tail env) ir (block_start b))\<rparr>"
    by (simp add: f' finalize_block_function map_of_map_assign)
  have 4: "map_of (blocks st') (block_start b) = Some ir"
    by (simp add: st' finalize_block_frame map_of_map_assign)
  have 5: "real_end \<noteq> block_end b \<and> real_end \<notin> seen_blocks st \<and> real_end \<noteq> block_start b
          \<longrightarrow> real_end \<in> dom (map_of (function_blocks f'))"
  proof
    assume a: "real_end \<noteq> block_end b \<and> real_end \<notin> seen_blocks st \<and> real_end \<noteq> block_start b"
    then have "block_start ?split \<noteq> block_end ?split" "block_start ?split \<notin> seen_blocks ?st1"
      by (simp_all add: split_descriptor_def mark_seen_def)
    from process_block_attaches(1)[OF this, of env f] rec
    have "real_end \<in> dom (map_of (function_blocks f1))" by (simp add: split_descriptor_def)
    then show "real_end \<in> dom (map_of (function_blocks f'))"
      by (auto simp: f' finalize_block_function map_of_map_assign)
  qed
  have 6: "real_end = block_end b \<or> real_end \<in> seen_blocks st \<or> real_end = block_start b
          \<longrightarrow> f1 = f \<and> r
              \<and> dom (map_of (function_blocks f')) =
                  insert (block_start b) (dom (map_of (function_blocks f)))"
  proof
    assume "real_end = block_end b \<or> real_end \<in> seen_blocks st \<or> real_end = block_start b"
    then have "block_start ?split = block_end ?split \<or> block_start ?split \<in> seen_blocks ?st1"
      by (auto simp: split_descriptor_def mark_seen_def)
    then have "process_block env f ?split ?st1 = (True, f, ?st1)"
      using process_block_empty process_block_seen by blast
    with rec have "f1 = f" "r" by simp_all
    then show "f1 = f \<and> r
              \<and> dom (map_of (function_blocks f')) =
                  insert (block_start b) (dom (map_of (function_blocks f)))"
      by (auto simp: f' finalize_block_function map_of_map_assign)
  qed
  from 1 2 3 4 5 6 show ?thesis by blast
qed

text \<open>
  The specification's wording promises a block at \<open>real_end\<close> after every split; when
  \<open>0x600020\<close> has already been lifted for another function, the function gets none.
\<close>

theorem under_translation_counterexample:
  "block_start split_block_descriptor \<noteq> block_end split_block_descriptor
   \<and> block_start split_block_descriptor \<notin> seen_blocks shared_translator
   \<and> translate demo_env (block_start split_block_descriptor)
        (instruction_count split_block_descriptor) = (head_block, 0x600020)
   \<and> ucast (count_marks (used_stmts head_block) 0) < instruction_count split_block_descriptor
   \<and> map_of (function_blocks (fst (snd (process_block demo_env (new_Function 0x600000)
               split_block_descriptor shared_translator)))) 0x600020 = None"
  by (simp add: process_block.simps demo_defs block_defs descriptor_defs used_stmts_def Let_def)

theorem under_translation_split_witness:
  "fst (process_block demo_env (new_Function 0x600000) split_block_descriptor empty_translator)
   \<and> map_of (function_blocks (fst (snd (process_block demo_env (new_Function 0x600000)
               split_block_descriptor empty_translator)))) 0x600000 =
       Some \<lparr>address = 0x600000, vex_block = head_block,
             terminator = \<lparr>type = TerminatorCall, target = 0x400100,
                            fall_through = 0x600020, is_tail = True\<rparr>\<rparr>
   \<and> map_of (blocks (snd (snd (process_block demo_env (new_Function 0x600000)
               split_block_descriptor empty_translator)))) 0x600000 = Some head_block
   \<and> 0x600020 \<in> dom (map_of (function_blocks (fst (snd (process_block demo_env
               (new_Function 0x600000) split_block_descriptor empty_translator)))))"
proof -
  let ?p = "process_block demo_env (new_Function 0x600000) split_block_descriptor
              empty_translator"
  let ?q = "process_block demo_env (new_Function 0x600000)
              (split_descriptor split_block_descriptor head_block 0x600020)
              (mark_seen (block_start split_block_descriptor) empty_translator)"
  have h: "block_start split_block_descriptor \<noteq> block_end split_block_descriptor"
    "block_start split_block_descriptor \<notin> seen_blocks empty_translator"
    "translate demo_env (block_start split_block_descriptor)
        (instruction_count split_block_descriptor) = (head_block, 0x600020)"
    "ucast (count_marks (used_stmts head_block) 0) < instruction_count split_block_descriptor"
    by (simp_all add: demo_defs descriptor_defs used_stmts_def)
  have rec: "?q = (fst ?q, fst (snd ?q), snd (snd ?q))" by simp
  have res: "?p = (fst ?p, fst (snd ?p), snd (snd ?p))" by simp
  have r: "fst ?q" using process_block_frame[of "new_Function 0x600000"
        "mark_seen (block_start split_block_descriptor) empty_translator" demo_env
        "split_descriptor split_block_descriptor head_block 0x600020"]
    by (simp add: frame_ok_def Let_def)
  have t: "overlay (get_non_returning demo_env)
             (get_terminator (uninit_tail demo_env) head_block 0x600000) =
           \<lparr>type = TerminatorCall, target = 0x400100, fall_through = 0x600020, is_tail = True\<rparr>"
    by (simp add: overlay_def classifier_defs demo_env_def head_block_def Let_def)
  have d: "block_start split_block_descriptor = 0x600000"
    "block_end split_block_descriptor = 0x600040"
    "seen_blocks empty_translator = {}"
    by (simp_all add: split_block_descriptor_def empty_translator_def)
  have n: "(0x600020::addr) \<noteq> 0x600040" "(0x600020::addr) \<notin> {}"
    "(0x600020::addr) \<noteq> 0x600000" by simp_all
  show ?thesis
    using under_translation_split[OF h rec res] r n unfolding d t by blast
qed


section \<open>Properties of the loop over a function's descriptors and of the tail-jump detector\<close>

lemma set_map_assign: "set (map_assign k v m) \<subseteq> insert (k, v) (set m)"
  by (induction m) (auto split: if_splits)

lemma keyed_by_address_finalize:
  "keyed_by_address f \<Longrightarrow> keyed_by_address (fst (finalize_block env f b ir st))"
  using set_map_assign[of "block_start b" _ "function_blocks f"]
  by (fastforce simp: keyed_by_address_def finalize_block_function)

lemma process_block_keyed:
  "keyed_by_address f \<Longrightarrow> keyed_by_address (fst (snd (process_block env f b st)))"
proof (induction env f b st rule: process_block_induct)
  case (skip env f b st)
  then show ?case by simp
next
  case (split env f b st ir real_end r f1 st2)
  from split.IH[OF split.prems] split.hyps(5) have "keyed_by_address f1" by simp
  then show ?case unfolding split.hyps(6) by (simp add: keyed_by_address_finalize)
next
  case (whole env f b st ir real_end)
  then show ?case by (simp add: keyed_by_address_finalize)
qed

lemma frame_ok_trans:
  assumes "frame_ok f st (r1, f1, st1)" and "frame_ok f1 st1 res"
  shows "frame_ok f st res"
proof -
  let ?f' = "fst (snd res)" and ?st' = "snd (snd res)"
  from assms(1) have a: "seen_blocks st \<subseteq> seen_blocks st1"
    "dom (map_of (function_blocks f)) \<subseteq> dom (map_of (function_blocks f1))"
    "dom (map_of (function_blocks f1)) \<subseteq>
       dom (map_of (function_blocks f)) \<union> (seen_blocks st1 - seen_blocks st)"
    "functions st1 = functions st" "is_finalized st1 = is_finalized st"
    "function_address f1 = function_address f" "function_finalized f1 = function_finalized f"
    by (simp_all add: frame_ok_def)
  from assms(2) have b: "fst res" "seen_blocks st1 \<subseteq> seen_blocks ?st'"
    "dom (map_of (function_blocks f1)) \<subseteq> dom (map_of (function_blocks ?f'))"
    "dom (map_of (function_blocks ?f')) \<subseteq>
       dom (map_of (function_blocks f1)) \<union> (seen_blocks ?st' - seen_blocks st1)"
    "functions ?st' = functions st1" "is_finalized ?st' = is_finalized st1"
    "function_address ?f' = function_address f1" "function_finalized ?f' = function_finalized f1"
    by (simp_all add: frame_ok_def Let_def)
  have 1: "seen_blocks st \<subseteq> seen_blocks ?st'" using a(1) b(2) by blast
  have 2: "dom (map_of (function_blocks f)) \<subseteq> dom (map_of (function_blocks ?f'))"
    using a(2) b(3) by blast
  have 3: "dom (map_of (function_blocks ?f')) \<subseteq>
       dom (map_of (function_blocks f)) \<union> (seen_blocks ?st' - seen_blocks st)"
    using a(1,3) b(2,4) by blast
  show ?thesis
    unfolding frame_ok_def Let_def using b(1) 1 2 3 a(4-7) b(5-8) by simp
qed

lemma process_blocks_frame: "frame_ok f st (process_blocks env f bs st)"
proof (induction bs arbitrary: f st)
  case Nil
  show ?case by (simp add: frame_ok_refl)
next
  case (Cons b bs)
  obtain ok f1 st1 where p: "process_block env f b st = (ok, f1, st1)"
    using prod_cases3 by blast
  have fr: "frame_ok f st (ok, f1, st1)" using process_block_frame[of f st env b] p by simp
  then have ok by (simp add: frame_ok_def)
  with p have "process_blocks env f (b # bs) st = process_blocks env f1 bs st1" by simp
  with frame_ok_trans[OF fr Cons.IH[of f1 st1]] show ?case by simp
qed

lemma process_blocks_recorded:
  "blocks_recorded f st \<Longrightarrow>
   blocks_recorded (fst (snd (process_blocks env f bs st))) (snd (snd (process_blocks env f bs st)))"
proof (induction bs arbitrary: f st)
  case Nil
  then show ?case by simp
next
  case (Cons b bs)
  obtain ok f1 st1 where p: "process_block env f b st = (ok, f1, st1)"
    using prod_cases3 by blast
  have r: "blocks_recorded f1 st1" using process_block_recorded[OF Cons.prems, of env b] p by simp
  show ?case
  proof (cases ok)
    case True
    with p Cons.IH[OF r] show ?thesis by simp
  next
    case False
    with p r show ?thesis by simp
  qed
qed

lemma process_blocks_keyed:
  "keyed_by_address f \<Longrightarrow> keyed_by_address (fst (snd (process_blocks env f bs st)))"
proof (induction bs arbitrary: f st)
  case Nil
  then show ?case by simp
next
  case (Cons b bs)
  obtain ok f1 st1 where p: "process_block env f b st = (ok, f1, st1)"
    using prod_cases3 by blast
  have r: "keyed_by_address f1" using process_block_keyed[OF Cons.prems, of env b st] p by simp
  show ?case
  proof (cases ok)
    case True
    with p Cons.IH[OF r] show ?thesis by simp
  next
    case False
    with p r show ?thesis by simp
  qed
qed

lemma process_block_start_seen:
  "block_start b \<noteq> block_end b \<Longrightarrow>
   block_start b \<in> seen_blocks (snd (snd (process_block env f b st)))"
proof (cases "block_start b \<in> seen_blocks st")
  case True
  then show ?thesis by (simp add: process_block_seen)
next
  case False
  assume "block_start b \<noteq> block_end b"
  from process_block_attaches(2)[OF this False] show ?thesis .
qed

lemma process_blocks_starts_seen:
  assumes "fst (process_blocks env f bs st)" and "d \<in> set bs"
    and "block_start d \<noteq> block_end d"
  shows "block_start d \<in> seen_blocks (snd (snd (process_blocks env f bs st)))"
  using assms
proof (induction bs arbitrary: f st)
  case Nil
  then show ?case by simp
next
  case (Cons b bs)
  obtain ok f1 st1 where p: "process_block env f b st = (ok, f1, st1)"
    using prod_cases3 by blast
  from Cons.prems(1) p have ok: ok by (auto split: if_splits)
  with p have eq: "process_blocks env f (b # bs) st = process_blocks env f1 bs st1" by simp
  show ?case
  proof (cases "d = b")
    case True
    have "block_start d \<in> seen_blocks st1"
      using process_block_start_seen[OF Cons.prems(3), of env f st] p True by simp
    moreover have "seen_blocks st1 \<subseteq> seen_blocks (snd (snd (process_blocks env f1 bs st1)))"
      using process_blocks_frame[of f1 st1 env bs] by (simp add: frame_ok_def Let_def)
    ultimately show ?thesis unfolding eq by blast
  next
    case False
    with Cons.prems(2) have "d \<in> set bs" by simp
    from Cons.IH[OF _ this Cons.prems(3), of f1 st1] Cons.prems(1) show ?thesis
      unfolding eq by simp
  qed
qed

lemma detect_tail_jumps_blocks:
  assumes "(k, b) \<in> set (function_blocks (detect_tail_jumps f))"
  shows "\<exists>b0. (k, b0) \<in> set (function_blocks f) \<and> address b = address b0
      \<and> vex_block b = vex_block b0
      \<and> terminator b = tail_update (function_blocks f) (terminator b0)"
  using assms by (auto simp: detect_tail_jumps_def)

lemma detect_tail_jumps_addresses:
  "(\<lambda>(k, b). address b) ` set (function_blocks (detect_tail_jumps f)) =
   (\<lambda>(k, b). address b) ` set (function_blocks f)"
  by (force simp: detect_tail_jumps_def image_iff)


lemma tail_update_fields:
  "type (tail_update bs t) = type t" "target (tail_update bs t) = target t"
  "fall_through (tail_update bs t) = fall_through t"
  "is_tail (tail_update bs t) \<longleftrightarrow>
     type t = TerminatorJump \<and> (\<forall>(k, b) \<in> set bs. address b \<noteq> target t)"
  by (cases "type t"; auto simp: tail_update_def Let_def find_None_iff)+


section \<open>Whole functions\<close>

lemma new_Function_keyed: "keyed_by_address (new_Function a)"
  by (simp add: keyed_by_address_def new_Function_def)

lemma translate_function_Some:
  assumes "translate_function env (a, bs) st = (Some F, st')"
  shows "\<exists>f st1. process_blocks env (new_Function a) bs
                   (st\<lparr>functions := map_assign a (new_Function a) (functions st)\<rparr>)
                 = (True, f, st1)
            \<and> F = finalize_function (detect_tail_jumps f)
            \<and> st' = st1\<lparr>functions := map_assign a F (functions st1)\<rparr>"
  using assms
  by (auto simp: translate_function_body Let_def split: prod.splits if_splits)

text \<open>
  C3. After \<open>translate_function\<close> has returned a Function \<open>F\<close>, every block of \<open>F\<close> has
  \<open>is_tail\<close> set if and only if its terminator is a Jump whose target is not the address
  of any block of \<open>F\<close>; in particular \<open>is_tail\<close> is false for every terminator of
  another type. Each block is stored under its own address.
\<close>

theorem tail_flag_after_translation:
  assumes tf: "translate_function env (a, bs) st = (Some F, st')"
    and blk: "(k, b) \<in> set (function_blocks F)"
  shows "(is_tail (terminator b) \<longleftrightarrow>
            type (terminator b) = TerminatorJump
            \<and> (\<forall>(k', b') \<in> set (function_blocks F). address b' \<noteq> target (terminator b)))
       \<and> (type (terminator b) \<noteq> TerminatorJump \<longrightarrow> \<not> is_tail (terminator b))
       \<and> address b = k"
proof -
  from translate_function_Some[OF tf] obtain f st1 where
    loop: "process_blocks env (new_Function a) bs
             (st\<lparr>functions := map_assign a (new_Function a) (functions st)\<rparr>) = (True, f, st1)"
    and F: "F = finalize_function (detect_tail_jumps f)" by blast
  have fb: "function_blocks F = function_blocks (detect_tail_jumps f)"
    by (simp add: F finalize_function_def)
  from blk fb detect_tail_jumps_blocks[of k b f] obtain b0 where
    b0: "(k, b0) \<in> set (function_blocks f)" "address b = address b0"
      "terminator b = tail_update (function_blocks f) (terminator b0)" by auto
  have "keyed_by_address f"
    by (metis process_blocks_keyed new_Function_keyed loop fst_conv snd_conv)
  with b0 have key: "address b = k" by (auto simp: keyed_by_address_def)
  have addrs: "(\<forall>(k', b') \<in> set (function_blocks F). address b' \<noteq> x) \<longleftrightarrow>
               (\<forall>(k', b') \<in> set (function_blocks f). address b' \<noteq> x)" for x
    using detect_tail_jumps_addresses[of f] unfolding fb by (force simp: image_iff)+
  show ?thesis
    using key by (simp add: b0(3) tail_update_fields addrs)
qed

theorem tail_flag_after_translation_witness:
  "fst (translate_function demo_env tail_call_entry empty_translator) = Some tail_call_function
   \<and> map (\<lambda>(k, b). (address b, type (terminator b), target (terminator b),
                       is_tail (terminator b)))
        (function_blocks tail_call_function) =
       [(0x400500, TerminatorJump, 0x400508, False), (0x400508, TerminatorJump, 0xDEAD, True)]"
proof -
  let ?t = "translate_function demo_env tail_call_entry empty_translator"
  have e: "fst ?t = Some tail_call_function"
    by (simp add: translate_function_body tail_call_entry_def tail_call_function_def
        process_block.simps demo_defs block_defs classifier_defs detect_tail_jumps_def
        tail_update_def Let_def)
  then have tf: "translate_function demo_env (0x400500,
        [\<lparr>block_start = 0x400500, block_end = 0x400508, instruction_count = 1\<rparr>,
         \<lparr>block_start = 0x400508, block_end = 0x40050D, instruction_count = 1\<rparr>])
        empty_translator = (Some tail_call_function, snd ?t)"
    by (simp add: tail_call_entry_def prod_eq_iff)
  have m1: "(0x400508, \<lparr>address = 0x400508, vex_block = tail_jump_block,
                     terminator = \<lparr>type = TerminatorJump, target = 0xDEAD,
                                    fall_through = 0, is_tail = True\<rparr>\<rparr>)
            \<in> set (function_blocks tail_call_function)"
    by (simp add: tail_call_function_def)
  have m2: "(0x400500, \<lparr>address = 0x400500, vex_block = jump_block,
                     terminator = \<lparr>type = TerminatorJump, target = 0x400508,
                                    fall_through = 0, is_tail = False\<rparr>\<rparr>)
            \<in> set (function_blocks tail_call_function)"
    by (simp add: tail_call_function_def)
  from tail_flag_after_translation[OF tf m1] tail_flag_after_translation[OF tf m2] e
  show ?thesis by (simp add: tail_call_function_def)
qed


lemma translate_function_unfold:
  "translate_function env (a, bs) st =
     (case process_blocks env (new_Function a) bs (fresh_slot a st) of
        (ok, f, st1) \<Rightarrow>
          if \<not> ok then (None, st1\<lparr>functions := map_erase a (functions st1)\<rparr>)
          else (Some (finalize_function (detect_tail_jumps f)),
                st1\<lparr>functions :=
                      map_assign a (finalize_function (detect_tail_jumps f)) (functions st1)\<rparr>))"
  by (auto simp: translate_function_body fresh_slot_def Let_def split: prod.splits)

text \<open>
  In this source \<open>process_block\<close> has no failing path, so the loop always succeeds and
  \<open>translate_function\<close> never returns the null handle.
\<close>

lemma translate_function_succeeds: "fst (translate_function env (a, bs) st) \<noteq> None"
proof -
  obtain ok f st1 where
    loop: "process_blocks env (new_Function a) bs (fresh_slot a st) = (ok, f, st1)"
    using prod_cases3 by blast
  have ok
    using process_blocks_frame[of "new_Function a" "fresh_slot a st" env bs] loop
    by (simp add: frame_ok_def)
  with loop show ?thesis by (simp add: translate_function_unfold)
qed


section \<open>Frame of the function translator\<close>


lemma translate_function_frame:
  assumes tf: "translate_function env (a, bs) st = (r, st')"
    and loop: "process_blocks env (new_Function a) bs (fresh_slot a st) = (ok, f, st1)"
  shows "seen_blocks st' = seen_blocks st1" "blocks st' = blocks st1"
    "\<not> ok \<Longrightarrow> r = None" "r = Some F \<Longrightarrow> function_blocks F = function_blocks (detect_tail_jumps f)"
  using tf loop
  by (auto simp: translate_function_unfold finalize_function_def split: if_splits)

section \<open>The function translator over any block processor\<close>


lemma translate_function_with_unfold:
  "translate_function_with pb (a, bs) st =
     (case process_blocks_with pb (new_Function a) bs (fresh_slot a st) of
        (ok, f, st1) \<Rightarrow>
          if \<not> ok then (None, st1\<lparr>functions := map_erase a (functions st1)\<rparr>)
          else (Some (finalize_function (detect_tail_jumps f)),
                st1\<lparr>functions :=
                      map_assign a (finalize_function (detect_tail_jumps f)) (functions st1)\<rparr>))"
  by (auto simp: translate_function_with_def fresh_slot_def Let_def split: prod.splits)

lemma run_blocks_Nil: "run_blocks pb fs [] = fs"
  by (simp add: run_blocks_def)

lemma run_blocks_Cons: "run_blocks pb (f, s) (d # ds) = run_blocks pb (snd (pb f d s)) ds"
  by (simp add: run_blocks_def)

lemma process_blocks_with_order:
  assumes "process_blocks_with pb f bs st = (ok, f', st')"
  shows "(ok \<longrightarrow> (f', st') = run_blocks pb (f, st) bs
            \<and> (\<forall>pre d post. bs = pre @ d # post \<longrightarrow>
                  fst (pb (fst (run_blocks pb (f, st) pre)) d (snd (run_blocks pb (f, st) pre)))))
       \<and> (\<not> ok \<longrightarrow> (\<exists>pre d post. bs = pre @ d # post
            \<and> (\<forall>pre' d' post'. pre = pre' @ d' # post' \<longrightarrow>
                  fst (pb (fst (run_blocks pb (f, st) pre')) d'
                         (snd (run_blocks pb (f, st) pre'))))
            \<and> pb (fst (run_blocks pb (f, st) pre)) d (snd (run_blocks pb (f, st) pre))
                = (False, f', st')))"
  using assms
proof (induction bs arbitrary: f st)
  case Nil
  then show ?case by (simp add: run_blocks_Nil)
next
  case (Cons b bs)
  obtain r f1 st1 where p: "pb f b st = (r, f1, st1)" using prod_cases3 by blast
  show ?case
  proof (cases r)
    case False
    with Cons.prems p have e: "ok = False" "f' = f1" "st' = st1" by simp_all
    have "b # bs = [] @ b # bs
        \<and> (\<forall>pre' d' post'. [] = pre' @ d' # post' \<longrightarrow>
                  fst (pb (fst (run_blocks pb (f, st) pre')) d'
                         (snd (run_blocks pb (f, st) pre'))))
        \<and> pb (fst (run_blocks pb (f, st) [])) b (snd (run_blocks pb (f, st) []))
             = (False, f', st')"
      using p False e by (simp add: run_blocks_Nil)
    then show ?thesis using e(1) by blast
  next
    case True
    with Cons.prems p have rest: "process_blocks_with pb f1 bs st1 = (ok, f', st')" by simp
    note ih = Cons.IH[OF rest]
    have run: "run_blocks pb (f, st) (b # xs) = run_blocks pb (f1, st1) xs" for xs
      by (simp add: run_blocks_Cons p)
    have head: "fst (pb (fst (run_blocks pb (f, st) [])) b (snd (run_blocks pb (f, st) [])))"
      using p True by (simp add: run_blocks_Nil)
    have all: "(\<forall>pre d post. xs = pre @ d # post \<longrightarrow>
                  fst (pb (fst (run_blocks pb (f1, st1) pre)) d
                         (snd (run_blocks pb (f1, st1) pre)))) \<Longrightarrow>
               (\<forall>pre d post. b # xs = pre @ d # post \<longrightarrow>
                  fst (pb (fst (run_blocks pb (f, st) pre)) d
                         (snd (run_blocks pb (f, st) pre))))" for xs
    proof (intro allI impI)
      fix pre d post
      assume a: "\<forall>pre d post. xs = pre @ d # post \<longrightarrow>
                  fst (pb (fst (run_blocks pb (f1, st1) pre)) d
                         (snd (run_blocks pb (f1, st1) pre)))"
        and s: "b # xs = pre @ d # post"
      show "fst (pb (fst (run_blocks pb (f, st) pre)) d (snd (run_blocks pb (f, st) pre)))"
      proof (cases pre)
        case Nil
        with s head show ?thesis by simp
      next
        case (Cons x pre2)
        with s have "x = b" "xs = pre2 @ d # post" by simp_all
        with a Cons run show ?thesis by simp
      qed
    qed
    show ?thesis
    proof (cases ok)
      case True
      with ih have "(f', st') = run_blocks pb (f1, st1) bs"
        and "\<forall>pre d post. bs = pre @ d # post \<longrightarrow>
                  fst (pb (fst (run_blocks pb (f1, st1) pre)) d
                         (snd (run_blocks pb (f1, st1) pre)))" by simp_all
      with all[of bs] run[of bs] True show ?thesis by simp
    next
      case False
      with ih obtain pre d post where
        s: "bs = pre @ d # post"
        and a: "\<forall>pre' d' post'. pre = pre' @ d' # post' \<longrightarrow>
                  fst (pb (fst (run_blocks pb (f1, st1) pre')) d'
                         (snd (run_blocks pb (f1, st1) pre')))"
        and l: "pb (fst (run_blocks pb (f1, st1) pre)) d (snd (run_blocks pb (f1, st1) pre))
                = (False, f', st')" by blast
      have "b # bs = (b # pre) @ d # post
        \<and> (\<forall>pre' d' post'. b # pre = pre' @ d' # post' \<longrightarrow>
                  fst (pb (fst (run_blocks pb (f, st) pre')) d'
                         (snd (run_blocks pb (f, st) pre'))))
        \<and> pb (fst (run_blocks pb (f, st) (b # pre))) d (snd (run_blocks pb (f, st) (b # pre)))
             = (False, f', st')"
        using s all[OF a] l by (simp add: run)
      then show ?thesis using False by blast
    qed
  qed
qed







text \<open>
  C7. \<open>translate_function\<close> is \<open>translate_function_with\<close> at the translator's own
  \<open>process_block\<close> (by definition). Whatever the block processor,
  \<open>translate_function_with\<close> creates a
  fresh Function in the registry slot of the entry address and runs the processor over
  the catalog's descriptors in order, each on the function and state the previous ones
  left. If every call returns true, the result is a handle to the Function so built,
  with tail jumps detected and finalized, and the slot of the entry address holds that
  Function. If a call returns false, the loop stops at that descriptor, the result is
  the null handle and the slot of the entry address is erased. Beyond that slot the end
  of the call changes nothing: the other slots, \<open>seen_blocks\<close> and \<open>blocks\<close> are as the
  loop left them. So a Function found in the registry at the entry address afterwards
  is finalized. For the translator's own \<open>process_block\<close>, which never returns false,
  the result is never null, no other registry slot changes during the whole call, and
  the start of every non-empty descriptor of the entry ends up in \<open>seen_blocks\<close>.
\<close>

theorem translate_function_all_or_nothing:
  assumes tf: "translate_function_with pb (a, bs) st = (r, st')"
    and loop: "process_blocks_with pb (new_Function a) bs (fresh_slot a st) = (ok, f, st1)"
  shows "(case r of
          Some F \<Rightarrow>
            ok \<and> (f, st1) = run_blocks pb (new_Function a, fresh_slot a st) bs
            \<and> (\<forall>pre d post. bs = pre @ d # post \<longrightarrow>
                  fst (pb (fst (run_blocks pb (new_Function a, fresh_slot a st) pre)) d
                         (snd (run_blocks pb (new_Function a, fresh_slot a st) pre))))
            \<and> F = finalize_function (detect_tail_jumps f) \<and> function_finalized F
            \<and> map_of (functions st') = (map_of (functions st1))(a \<mapsto> F)
        | None \<Rightarrow>
            \<not> ok
            \<and> (\<exists>pre d post. bs = pre @ d # post
                 \<and> (\<forall>pre' d' post'. pre = pre' @ d' # post' \<longrightarrow>
                       fst (pb (fst (run_blocks pb (new_Function a, fresh_slot a st) pre')) d'
                              (snd (run_blocks pb (new_Function a, fresh_slot a st) pre'))))
                 \<and> pb (fst (run_blocks pb (new_Function a, fresh_slot a st) pre)) d
                       (snd (run_blocks pb (new_Function a, fresh_slot a st) pre))
                     = (False, f, st1))
            \<and> map_of (functions st') = (map_of (functions st1))(a := None))
     \<and> seen_blocks st' = seen_blocks st1 \<and> blocks st' = blocks st1
     \<and> (\<forall>g. map_of (functions st') a = Some g \<longrightarrow> function_finalized g)
     \<and> (pb = process_block env \<longrightarrow>
          r \<noteq> None
          \<and> (\<forall>k. k \<noteq> a \<longrightarrow> map_of (functions st') k = map_of (functions st) k)
          \<and> (\<forall>d \<in> set bs. block_start d \<noteq> block_end d \<longrightarrow> block_start d \<in> seen_blocks st'))"
proof -
  note ord = process_blocks_with_order[OF loop]
  let ?F = "finalize_function (detect_tail_jumps f)"
  have fin: "function_finalized ?F" by (simp add: finalize_function_def)
  have A: "case r of
          Some F \<Rightarrow>
            ok \<and> (f, st1) = run_blocks pb (new_Function a, fresh_slot a st) bs
            \<and> (\<forall>pre d post. bs = pre @ d # post \<longrightarrow>
                  fst (pb (fst (run_blocks pb (new_Function a, fresh_slot a st) pre)) d
                         (snd (run_blocks pb (new_Function a, fresh_slot a st) pre))))
            \<and> F = finalize_function (detect_tail_jumps f) \<and> function_finalized F
            \<and> map_of (functions st') = (map_of (functions st1))(a \<mapsto> F)
        | None \<Rightarrow>
            \<not> ok
            \<and> (\<exists>pre d post. bs = pre @ d # post
                 \<and> (\<forall>pre' d' post'. pre = pre' @ d' # post' \<longrightarrow>
                       fst (pb (fst (run_blocks pb (new_Function a, fresh_slot a st) pre')) d'
                              (snd (run_blocks pb (new_Function a, fresh_slot a st) pre'))))
                 \<and> pb (fst (run_blocks pb (new_Function a, fresh_slot a st) pre)) d
                       (snd (run_blocks pb (new_Function a, fresh_slot a st) pre))
                     = (False, f, st1))
            \<and> map_of (functions st') = (map_of (functions st1))(a := None)"
  proof (cases ok)
    case False
    with tf loop have r: "r = None" and st': "st' = st1\<lparr>functions := map_erase a (functions st1)\<rparr>"
      by (simp_all add: translate_function_with_unfold)
    from ord False show ?thesis by (simp add: r st' map_of_map_erase)
  next
    case True
    with tf loop have r: "r = Some ?F"
      and st': "st' = st1\<lparr>functions := map_assign a ?F (functions st1)\<rparr>"
      by (simp_all add: translate_function_with_unfold)
    from ord True fin show ?thesis by (simp add: r st' map_of_map_assign)
  qed
  have B: "seen_blocks st' = seen_blocks st1" "blocks st' = blocks st1"
    using tf loop by (auto simp: translate_function_with_unfold split: if_splits)
  have C: "\<forall>g. map_of (functions st') a = Some g \<longrightarrow> function_finalized g"
    using tf loop fin
    by (auto simp: translate_function_with_unfold map_of_map_erase map_of_map_assign
        split: if_splits)
  have D: "pb = process_block env \<longrightarrow>
          r \<noteq> None
          \<and> (\<forall>k. k \<noteq> a \<longrightarrow> map_of (functions st') k = map_of (functions st) k)
          \<and> (\<forall>d \<in> set bs. block_start d \<noteq> block_end d \<longrightarrow> block_start d \<in> seen_blocks st')"
  proof
    assume pb: "pb = process_block env"
    have l: "process_blocks env (new_Function a) bs (fresh_slot a st) = (ok, f, st1)"
      using loop by (simp add: pb process_blocks_def)
    have fr: "frame_ok (new_Function a) (fresh_slot a st) (ok, f, st1)"
      using process_blocks_frame[of "new_Function a" "fresh_slot a st" env bs] l by simp
    then have ok: ok and fs: "functions st1 = functions (fresh_slot a st)"
      by (simp_all add: frame_ok_def)
    from ok tf loop have r: "r = Some ?F"
      and st': "st' = st1\<lparr>functions := map_assign a ?F (functions st1)\<rparr>"
      by (simp_all add: translate_function_with_unfold)
    have seen: "\<forall>d \<in> set bs. block_start d \<noteq> block_end d \<longrightarrow> block_start d \<in> seen_blocks st'"
      using process_blocks_starts_seen[of env "new_Function a" bs "fresh_slot a st"] l ok
      by (auto simp: st')
    show "r \<noteq> None
          \<and> (\<forall>k. k \<noteq> a \<longrightarrow> map_of (functions st') k = map_of (functions st) k)
          \<and> (\<forall>d \<in> set bs. block_start d \<noteq> block_end d \<longrightarrow> block_start d \<in> seen_blocks st')"
      using seen by (simp add: r st' fs fresh_slot_def map_of_map_assign)
  qed
  from A B C D show ?thesis by blast
qed

theorem translate_function_all_or_nothing_witness:
  "fst (translate_function_with (strict_process_block demo_env) stalling_entry
          (fresh_slot 0x400500 empty_translator)) = None
   \<and> map_of (functions (snd (translate_function_with (strict_process_block demo_env)
          stalling_entry (fresh_slot 0x400500 empty_translator)))) 0x400100 = None
   \<and> map_of (functions (snd (translate_function_with (strict_process_block demo_env)
          stalling_entry (fresh_slot 0x400500 empty_translator)))) 0x400500
        = Some (new_Function 0x400500)
   \<and> fst (translate_function demo_env tail_call_entry empty_translator)
        = Some tail_call_function
   \<and> map_of (functions (snd (translate_function demo_env tail_call_entry
          empty_translator))) 0x400500 = Some tail_call_function"
proof -
  let ?s0 = "fresh_slot 0x400500 empty_translator"
  let ?t = "translate_function_with (strict_process_block demo_env)
              (0x400100, [ret_descriptor, stuck_descriptor]) ?s0"
  let ?l = "process_blocks_with (strict_process_block demo_env) (new_Function 0x400100)
              [ret_descriptor, stuck_descriptor] (fresh_slot 0x400100 ?s0)"
  have tf: "?t = (fst ?t, snd ?t)" by simp
  have loop: "?l = (fst ?l, fst (snd ?l), snd (snd ?l))" by simp
  have e: "fst ?t = None"
    by (simp add: translate_function_with_def strict_defs process_block.simps demo_defs
        block_defs descriptor_defs classifier_defs fresh_slot_def used_stmts_def Let_def)
  have fl: "functions (snd (snd ?l)) =
      [(0x400100, new_Function 0x400100), (0x400500, new_Function 0x400500)]"
    by (simp add: strict_defs process_block.simps demo_defs
        block_defs descriptor_defs classifier_defs fresh_slot_def used_stmts_def Let_def)
  have fs: "map_of (functions (snd (snd ?l))) 0x400500 = Some (new_Function 0x400500)"
    unfolding fl by simp
  note c = translate_function_all_or_nothing[OF tf loop, of demo_env]
  from c e have m: "map_of (functions (snd ?t)) = (map_of (functions (snd (snd ?l))))(0x400100 := None)"
    by simp
  have n1: "map_of (functions (snd ?t)) 0x400100 = None" unfolding m by simp
  have n2: "map_of (functions (snd ?t)) 0x400500 = Some (new_Function 0x400500)"
    unfolding m fl by simp
  let ?t2 = "translate_function_with (process_block demo_env)
              (0x400500, snd tail_call_entry) empty_translator"
  let ?l2 = "process_blocks_with (process_block demo_env) (new_Function 0x400500)
              (snd tail_call_entry) (fresh_slot 0x400500 empty_translator)"
  have tf2: "?t2 = (fst ?t2, snd ?t2)" by simp
  have loop2: "?l2 = (fst ?l2, fst (snd ?l2), snd (snd ?l2))" by simp
  have e2: "fst ?t2 = Some tail_call_function"
    by (simp add: translate_function_with_def tail_call_entry_def tail_call_function_def
        process_block.simps demo_defs block_defs classifier_defs detect_tail_jumps_def
        tail_update_def Let_def)
  note c2 = translate_function_all_or_nothing[OF tf2 loop2, of demo_env]
  from c2 e2 have "map_of (functions (snd ?t2)) =
      (map_of (functions (snd (snd ?l2))))(0x400500 \<mapsto> tail_call_function)" by simp
  then have n3: "map_of (functions (snd ?t2)) 0x400500 = Some tail_call_function"
    by (simp only: fun_upd_same)
  have te: "tail_call_entry = (0x400500, snd tail_call_entry)"
    by (simp add: tail_call_entry_def)
  show ?thesis
    using e n1 n2 e2 n3 unfolding translate_function_def stalling_entry_def
    by (subst (1 2) te) simp
qed
section \<open>What a discarded function leaves behind\<close>



section \<open>Locking discipline of the accessors\<close>

text \<open>
  C9 (where the code falls short). The specification asks that every public lookup and mutation
  of the registry, \<open>get_containing_function\<close> included, hold the translator's mutex.
  \<open>get_function\<close>, \<open>cget_function\<close>, \<open>maybe_get_function\<close>, \<open>get_functions_mutable\<close>,
  \<open>add_function_xref\<close> and \<open>add_function_vfunc_xref\<close> do; \<open>get_containing_function\<close>
  scans the registry without taking it, for every address and every translator state.
\<close>

theorem get_containing_function_unlocked:
  "\<not> serialized (fst (get_containing_function contains_address a st))
   \<and> serialized (fst (cget_function a st))
   \<and> serialized (fst (get_function env a st))
   \<and> serialized (fst (maybe_get_function env a st))
   \<and> serialized (fst (get_functions_mutable st))
   \<and> serialized (fst (add_function_xref a x st))
   \<and> serialized (fst (add_function_vfunc_xref a x st))"
  by (simp add: serialized_def get_containing_function_def cget_function_def get_function_def
      maybe_get_function_def get_functions_mutable_def add_function_xref_def
      add_function_vfunc_xref_def split: prod.splits option.splits)


end
